theory Spec2Isabelle
  imports Main "HOL-Library.Sublist" "HOL-Library.Char_ord"
begin

section \<open>C strings and character arrays\<close>

text \<open>
  depload.cpp is C-style code over NUL-terminated strings. Two views are used.

  \<^item> A value of type \<open>string\<close> stands for the contents of a C string: the characters
    before its terminator. The end of the list is the terminator.
  \<^item> A value of type \<open>cbuf\<close> is a character array as it lies in memory, terminators
    included. It is used for \<open>fname\<close> in \<open>mapinexports\<close>, where the code writes a
    terminator into the middle of the name and later takes it out again.

  The constants \<open>MAXSTR\<close> and \<open>QMAXPATH\<close> belong to the host SDK and are not
  defined in depload.cpp. \<open>QMAXPATH\<close>, the size of \<open>segn\<close> in \<open>load\<close>, is a
  parameter of the model, and the comment that \<open>load\<close> formats into \<open>segn\<close> is bounded
  by it. The arrays \<open>fname\<close> and \<open>comment\<close> (\<open>MAXSTR\<close>) of the resolver are taken to
  be large enough for the names the host returns.
\<close>

type_synonym cbuf = "char list"

definition NUL :: char where
  "NUL = CHR 0x00"

definition backslash :: char where
  "backslash = CHR 0x5C"

text \<open>The C string that starts at the first element of an array.\<close>

definition cstr :: "cbuf \<Rightarrow> string" where
  "cstr b = takeWhile (\<lambda>c. c \<noteq> NUL) b"

definition strlen :: "cbuf \<Rightarrow> nat" where
  "strlen b = length (cstr b)"

text \<open>
  \<open>strcmp\<close> and \<open>strncmp\<close> compare character by character (as unsigned bytes) and
  return the sign of the first difference; a string that ends first is the smaller one.
\<close>

fun strcmp :: "string \<Rightarrow> string \<Rightarrow> int" where
  "strcmp [] [] = 0"
| "strcmp [] (y # ys) = - 1"
| "strcmp (x # xs) [] = 1"
| "strcmp (x # xs) (y # ys) =
     (if x = y then strcmp xs ys else if x < y then - 1 else 1)"

fun strncmp :: "string \<Rightarrow> string \<Rightarrow> nat \<Rightarrow> int" where
  "strncmp xs ys 0 = 0"
| "strncmp [] [] (Suc n) = 0"
| "strncmp [] (y # ys) (Suc n) = - 1"
| "strncmp (x # xs) [] (Suc n) = 1"
| "strncmp (x # xs) (y # ys) (Suc n) =
     (if x = y then strncmp xs ys n else if x < y then - 1 else 1)"

text \<open>
  \<open>strrchr s c\<close> for a character \<open>c\<close> other than the terminator: the offset of the
  last occurrence of \<open>c\<close> in \<open>s\<close>, \<open>None\<close> for the null pointer.
\<close>

fun strrchr :: "string \<Rightarrow> char \<Rightarrow> nat option" where
  "strrchr [] c = None"
| "strrchr (x # xs) c =
     (case strrchr xs c of
        Some i \<Rightarrow> Some (Suc i)
      | None \<Rightarrow> if x = c then Some 0 else None)"

section \<open>The import/export resolver\<close>

subsection \<open>Host tables\<close>

text \<open>
  The host's function table, as \<open>mapinexports\<close> reads it: \<open>getn_func i\<close> is the
  \<open>i\<close>-th element (\<open>None\<close> for a null pointer), \<open>startEA\<close> what \<open>get_func_limits\<close>
  reports, \<open>is_public_name\<close> and \<open>get_func_name\<close> the answers at that address
  (\<open>get_func_name = None\<close> when the host has no name to give).
\<close>

record 'ea func =
  startEA :: 'ea
  is_public_name :: bool
  get_func_name :: "string option"

text \<open>
  One entry of an import module, as \<open>enum_import_names\<close> hands it to its callback:
  address, name (\<open>None\<close> for an import by ordinal only) and ordinal.
\<close>

record 'ea import_entry =
  imp_ea :: 'ea
  imp_name :: "string option"
  imp_ord :: nat

text \<open>
  Repeatable comments are kept as the sequence of \<open>set_cmt\<close> calls, oldest first.
  \<open>get_cmt\<close> reads the comment at an address: the text of the last call for it.
\<close>

type_synonym 'ea cmts = "('ea \<times> string) list"

definition set_cmt :: "'ea \<Rightarrow> string \<Rightarrow> 'ea cmts \<Rightarrow> 'ea cmts" where
  "set_cmt ea comment cs = cs @ [(ea, comment)]"

definition get_cmt :: "'ea cmts \<Rightarrow> 'ea \<Rightarrow> string option" where
  "get_cmt cs ea = map_of (rev cs) ea"

subsection \<open>The name under test and its numeric suffix\<close>

text \<open>
  \<open>name\<close> points at \<open>fname\<close>; the model keeps the array itself in the field, since
  \<open>fname\<close> is reached through no other path once \<open>imname.name\<close> is set.
\<close>

record imname =
  name :: cbuf
  trunc :: int

text \<open>
  Lines 376-383: the loop over the characters from \<open>ptr2\<close> to the terminator. The
  result says whether \<open>ptr2\<close> is still non-null after the loop. Characters are
  compared as unsigned bytes; a byte above 127 fails the test either way, as too large
  here and as negative where \<open>char\<close> is signed.
\<close>

fun numeric_suffix :: "string \<Rightarrow> bool" where
  "numeric_suffix [] = True"
| "numeric_suffix (c # cs) =
     (if c < CHR ''0'' \<or> c > CHR ''9'' then False else numeric_suffix cs)"

text \<open>
  Lines 367-390 of \<open>mapinexports\<close>, on the array \<open>fname\<close> that \<open>get_func_name\<close>
  filled: the flag \<open>trunc\<close> and the array, with a terminator in place of the last
  underscore when the name is truncated.
\<close>

definition mapinexports_trunc :: "cbuf \<Rightarrow> imname" where
  "mapinexports_trunc fname =
     (case strrchr (cstr fname) CHR ''_'' of
        None \<Rightarrow> \<lparr>name = fname, trunc = 0\<rparr>
      | Some ptr \<Rightarrow>
          if numeric_suffix (cstr (drop (Suc ptr) fname))
          then \<lparr>name = fname[ptr := NUL], trunc = 1\<rparr>
          else \<lparr>name = fname, trunc = 0\<rparr>)"

subsection \<open>importmap\<close>

text \<open>
  The callback of \<open>enum_import_names\<close>. \<open>param\<close> is the array behind
  \<open>imname->name\<close>; the callback returns 1 (go on), the array and the comments.
\<close>

definition importmap ::
  "'ea \<Rightarrow> string option \<Rightarrow> nat \<Rightarrow> cbuf \<times> 'ea cmts \<Rightarrow> int \<times> cbuf \<times> 'ea cmts" where
  "importmap ea nm ord param =
     (case param of (buf, cs) \<Rightarrow>
        (case nm of
           None \<Rightarrow> (1, buf, cs)
         | Some n \<Rightarrow>
             let len = strlen buf in
             if strncmp n (cstr buf) len = 0
             then
               let buf1 = buf[len := CHR ''_''];
                   comment = ''import -> '' @ cstr buf1;
                   cs1 = set_cmt ea comment cs;
                   buf2 = buf1[len := NUL]
               in (1, buf2, cs1)
             else (1, buf, cs)))"

text \<open>
  \<open>enum_import_names\<close> calls the callback on each entry of one import module, in
  order, and stops early when the callback returns 0.
\<close>

fun enum_import_names ::
  "'ea import_entry list \<Rightarrow> ('ea \<Rightarrow> string option \<Rightarrow> nat \<Rightarrow> 'p \<Rightarrow> int \<times> 'p) \<Rightarrow> 'p \<Rightarrow> 'p"
  where
  "enum_import_names [] cb p = p"
| "enum_import_names (e # es) cb p =
     (case cb (imp_ea e) (imp_name e) (imp_ord e) p of
        (r, p') \<Rightarrow> if r = 0 then p' else enum_import_names es cb p')"

text \<open>Lines 396-401: every import module in turn, for one truncated name.\<close>

fun mapinexports_modules ::
  "'ea import_entry list list \<Rightarrow> cbuf \<times> 'ea cmts \<Rightarrow> cbuf \<times> 'ea cmts" where
  "mapinexports_modules [] p = p"
| "mapinexports_modules (m # ms) p =
     mapinexports_modules ms (enum_import_names m importmap p)"

text \<open>
  The body of the loop of \<open>mapinexports\<close> for one function (lines 355-401); the wait
  box is not modelled. \<open>get_func_name\<close> leaves the name and its terminator in
  \<open>fname\<close>.
\<close>

definition mapinexports_func ::
  "'ea import_entry list list \<Rightarrow> 'ea func option \<Rightarrow> 'ea cmts \<Rightarrow> 'ea cmts" where
  "mapinexports_func modules fn cs =
     (case fn of
        None \<Rightarrow> cs
      | Some func \<Rightarrow>
          if \<not> is_public_name func then cs
          else
            (case get_func_name func of
               None \<Rightarrow> cs
             | Some n \<Rightarrow>
                 let imn = mapinexports_trunc (n @ [NUL]) in
                 if trunc imn \<noteq> 0
                 then snd (mapinexports_modules modules (name imn, cs))
                 else cs))"

fun mapinexports ::
  "'ea import_entry list list \<Rightarrow> 'ea func option list \<Rightarrow> 'ea cmts \<Rightarrow> 'ea cmts" where
  "mapinexports modules [] cs = cs"
| "mapinexports modules (fn # fns) cs =
     mapinexports modules fns (mapinexports_func modules fn cs)"

section \<open>The registry of loaded files\<close>

subsection \<open>Nodes, the static head and the store\<close>

text \<open>
  A pointer to a \<open>struct _imports\<close> is null, the address of the static object
  \<open>loadedbase\<close>, or the address of a node that \<open>malloc\<close> returned. The field
  \<open>next\<close> is called \<open>nextp\<close> here.
\<close>

type_synonym addr = nat

datatype ptr = Null | Base | Addr addr

record imports_node =
  nextp :: ptr
  filename :: string

type_synonym linput = nat
type_synonym load_info = nat

text \<open>
  A segment of the database, as \<open>load\<close> and \<open>run\<close> read it: \<open>get_segm_name\<close>
  gives a name or fails (\<open>None\<close> for the result -1), \<open>get_segment_cmt\<close> gives the
  comment or a null pointer (\<open>None\<close>).
\<close>

record segment =
  get_segm_name :: "string option"
  get_segment_cmt :: "string option"

text \<open>
  The file handle, the loader list and the node are resources; the session keeps the
  sequence of acquisitions and releases.
\<close>

datatype resource = Linput linput | Loaders load_info | Node addr

datatype event = Acquire resource | Release resource

text \<open>
  The state of a session: the store of allocated nodes with the next address that
  \<open>malloc\<close> hands out (\<open>brk\<close>), the two globals \<open>loadedbase\<close> and \<open>loadedend\<close>, the
  segments (\<open>getnseg i\<close> is the \<open>i\<close>-th element, \<open>None\<close> for a null pointer), and the
  resource events.
\<close>

record session =
  heap :: "addr \<Rightarrow> imports_node option"
  brk :: addr
  loadedbase :: imports_node
  loadedend :: ptr
  segments :: "segment option list"
  trace :: "event list"

text \<open>Lines 46-47: the globals when the plugin is loaded.\<close>

definition init_session :: "segment option list \<Rightarrow> session" where
  "init_session sg =
     \<lparr>heap = (\<lambda>a. None), brk = 0, loadedbase = \<lparr>nextp = Null, filename = []\<rparr>,
      loadedend = Base, segments = sg, trace = []\<rparr>"

text \<open>
  What the host answers during one call of \<open>load\<close>: whether the file opens, whether
  a loader is found, whether an allocation of a given size succeeds, and what
  \<open>load_nonbinary_file\<close> returns and makes of the segments. The host also fixes
  \<open>QMAXPATH\<close>, and what a call of \<open>sprintf_s\<close> leaves in its array when the text and
  its terminator do not fit: \<open>sprintf_s_overflow b t\<close> is the string in the array after
  such a call, for its content \<open>b\<close> before the call and the text \<open>t\<close> that was to be
  stored (the C runtime stores the empty string and calls its invalid-parameter handler;
  the model follows the calls that return).
\<close>

record host =
  open_linput :: "string \<Rightarrow> linput option"
  build_loaders_list :: "linput \<Rightarrow> load_info option"
  malloc_succeeds :: "nat \<Rightarrow> bool"
  sizeof_imports :: nat
  QMAXPATH :: nat
  sprintf_s_overflow :: "string \<Rightarrow> string \<Rightarrow> string"
  load_nonbinary_file ::
    "string \<Rightarrow> linput \<Rightarrow> load_info \<Rightarrow> segment option list \<Rightarrow> bool \<times> segment option list"

text \<open>Reading through a pointer; \<open>None\<close> when it is null or points at no node.\<close>

definition deref :: "session \<Rightarrow> ptr \<Rightarrow> imports_node option" where
  "deref s p = (case p of Null \<Rightarrow> None | Base \<Rightarrow> Some (loadedbase s) | Addr a \<Rightarrow> heap s a)"

text \<open>The assignment \<open>p->next = q\<close>; \<open>None\<close> when \<open>p\<close> cannot be dereferenced.\<close>

definition set_next :: "ptr \<Rightarrow> ptr \<Rightarrow> session \<Rightarrow> session option" where
  "set_next p q s =
     (case p of
        Null \<Rightarrow> None
      | Base \<Rightarrow> Some (s\<lparr>loadedbase := (loadedbase s)\<lparr>nextp := q\<rparr>\<rparr>)
      | Addr a \<Rightarrow>
          (case heap s a of
             None \<Rightarrow> None
           | Some n \<Rightarrow> Some (s\<lparr>heap := (heap s)(a \<mapsto> n\<lparr>nextp := q\<rparr>)\<rparr>)))"

subsection \<open>isloaded and listloaded\<close>

text \<open>
  The loop of \<open>isloaded\<close> (lines 71-76). It need not end on a store with a cycle, and
  a pointer to no node cannot be read: both give \<open>None\<close>.
\<close>

partial_function (option) isloaded_loop :: "session \<Rightarrow> string \<Rightarrow> ptr \<Rightarrow> int option" where
  "isloaded_loop s fn p =
     (if p = Null then Some 0
      else
        (case deref s p of
           None \<Rightarrow> None
         | Some node \<Rightarrow>
             if strcmp fn (filename node) = 0 then Some 1
             else isloaded_loop s fn (nextp node)))"

declare isloaded_loop.simps [code]

definition isloaded :: "string \<Rightarrow> session \<Rightarrow> int option" where
  "isloaded fn s = isloaded_loop s fn (nextp (loadedbase s))"

text \<open>\<open>listloaded\<close> (lines 87-104): the texts handed to \<open>msg\<close>, in order.\<close>

partial_function (option) listloaded_loop ::
  "session \<Rightarrow> ptr \<Rightarrow> string list \<Rightarrow> string list option" where
  "listloaded_loop s p out =
     (if p = Null then Some out
      else
        (case deref s p of
           None \<Rightarrow> None
         | Some node \<Rightarrow>
             listloaded_loop s (nextp node)
               (out @ [''>>>> '' @ [CHR 0x27] @ filename node @ [CHR 0x27] @ ''\<newline>''])))"

declare listloaded_loop.simps [code]

definition listloaded :: "session \<Rightarrow> string list option" where
  "listloaded s =
     listloaded_loop s (nextp (loadedbase s))
       [''--------------------------\<newline>'' @
        ''Currently loaded files:\<newline>'' @
        ''--------------------------\<newline>'']"

subsection \<open>load\<close>

definition close_linput :: "linput \<Rightarrow> session \<Rightarrow> session" where
  "close_linput li s = s\<lparr>trace := trace s @ [Release (Linput li)]\<rparr>"

definition free_loaders_list :: "load_info \<Rightarrow> session \<Rightarrow> session" where
  "free_loaders_list ld s = s\<lparr>trace := trace s @ [Release (Loaders ld)]\<rparr>"

definition free :: "addr \<Rightarrow> session \<Rightarrow> session" where
  "free a s = s\<lparr>trace := trace s @ [Release (Node a)]\<rparr>"

text \<open>
  \<open>malloc\<close>: when the host grants the request, the next unused address; the node is
  written when the code fills it in.
\<close>

definition malloc :: "host \<Rightarrow> nat \<Rightarrow> session \<Rightarrow> addr option \<times> session" where
  "malloc h n s =
     (if malloc_succeeds h n
      then (Some (brk s), s\<lparr>brk := Suc (brk s), trace := trace s @ [Acquire (Node (brk s))]\<rparr>)
      else (None, s))"

text \<open>
  Line 217: \<open>sprintf_s\<close> formats the comment that records where a segment came from
  into \<open>segn\<close>, an array of \<open>QMAXPATH\<close> bytes that holds the segment's name at that
  moment. \<open>dep_cmt h segn fn\<close> is the string in the array after the call: the text when
  it fits together with its terminator, and what the failed call leaves otherwise.
\<close>

definition dep_cmt :: "host \<Rightarrow> string \<Rightarrow> string \<Rightarrow> string" where
  "dep_cmt h segn fn =
     (let text = ''\<newline>dep: '' @ fn @ ''\<newline>'' in
      if length text + 1 \<le> QMAXPATH h then text else sprintf_s_overflow h segn text)"

text \<open>
  The body of the segment loop (lines 198-218) for one segment: what \<open>getnseg\<close>
  returns before, and the segment after.
\<close>

definition load_segm :: "host \<Rightarrow> string \<Rightarrow> segment option \<Rightarrow> segment option" where
  "load_segm h fn sg =
     (case sg of
        None \<Rightarrow> None
      | Some segm \<Rightarrow>
          (case get_segm_name segm of
             None \<Rightarrow> Some segm
           | Some segn \<Rightarrow>
               (case get_segment_cmt segm of
                  Some file \<Rightarrow> Some segm
                | None \<Rightarrow>
                    (case strrchr fn backslash of
                       None \<Rightarrow> Some segm
                     | Some i \<Rightarrow>
                         Some (segm\<lparr>get_segm_name := Some (drop (Suc i) fn),
                                     get_segment_cmt := Some (dep_cmt h segn fn)\<rparr>)))))"

text \<open>
  Lines 224-228: the node is filled in and hung behind the node \<open>loadedend\<close> points
  at.
\<close>

definition link_imports :: "addr \<Rightarrow> string \<Rightarrow> session \<Rightarrow> session option" where
  "link_imports a fn s =
     (let s1 = s\<lparr>heap := (heap s)(a \<mapsto> \<lparr>nextp = Null, filename = fn\<rparr>)\<rparr> in
      case set_next (loadedend s1) (Addr a) s1 of
        None \<Rightarrow> None
      | Some s2 \<Rightarrow> Some (s2\<lparr>loadedend := Addr a\<rparr>))"

text \<open>
  \<open>load\<close> (lines 155-231). The result is \<open>None\<close> only when a list operation has no
  result; otherwise it is the return value and the session after the call.
\<close>

definition load :: "host \<Rightarrow> string \<Rightarrow> session \<Rightarrow> (int \<times> session) option" where
  "load h fn s =
     (case isloaded fn s of
        None \<Rightarrow> None
      | Some r \<Rightarrow>
          if r \<noteq> 0 then Some (- 2, s)
          else
            (case open_linput h fn of
               None \<Rightarrow> Some (- 1, s)
             | Some li \<Rightarrow>
                 let s1 = s\<lparr>trace := trace s @ [Acquire (Linput li)]\<rparr> in
                 (case build_loaders_list h li of
                    None \<Rightarrow> Some (- 1, close_linput li s1)
                  | Some ld \<Rightarrow>
                      let s2 = s1\<lparr>trace := trace s1 @ [Acquire (Loaders ld)]\<rparr>;
                          fnlen = length fn + 1
                      in
                      (case malloc h (sizeof_imports h + fnlen) s2 of
                         (None, s3) \<Rightarrow> Some (- 1, close_linput li (free_loaders_list ld s3))
                       | (Some a, s3) \<Rightarrow>
                           (case load_nonbinary_file h fn li ld (segments s3) of
                              (ok, sg) \<Rightarrow>
                                if \<not> ok
                                then Some (- 1,
                                  close_linput li (free_loaders_list ld
                                    (free a (s3\<lparr>segments := sg\<rparr>))))
                                else
                                  let s4 = s3\<lparr>segments := map (load_segm h fn) sg\<rparr>;
                                      s5 = close_linput li (free_loaders_list ld s4)
                                  in
                                  (case link_imports a fn s5 of
                                     None \<Rightarrow> None
                                   | Some s6 \<Rightarrow> Some (0, s6)))))))"

subsection \<open>The registry as a list\<close>

text \<open>
  \<open>chain hp p ns\<close>: starting at \<open>p\<close>, the store holds exactly the nodes \<open>ns\<close>
  (address and file name), linked in this order and ended by a null pointer.
\<close>

fun chain :: "(addr \<Rightarrow> imports_node option) \<Rightarrow> ptr \<Rightarrow> (addr \<times> string) list \<Rightarrow> bool" where
  "chain hp p [] = (p = Null)"
| "chain hp p ((a, x) # ns) =
     (p = Addr a \<and>
      (case hp a of
         None \<Rightarrow> False
       | Some node \<Rightarrow> filename node = x \<and> chain hp (nextp node) ns))"

text \<open>
  \<open>registry s ns\<close>: the list behind \<open>loadedbase\<close> is \<open>ns\<close>, no node occurs twice, all
  nodes were allocated, and \<open>loadedend\<close> points at the last node (at \<open>loadedbase\<close> when
  there is none).
\<close>

definition registry :: "session \<Rightarrow> (addr \<times> string) list \<Rightarrow> bool" where
  "registry s ns \<longleftrightarrow>
     chain (heap s) (nextp (loadedbase s)) ns \<and>
     distinct (map fst ns) \<and>
     list_all (\<lambda>n. fst n < brk s) ns \<and>
     loadedend s = (if ns = [] then Base else Addr (fst (last ns)))"

subsection \<open>Restoring the registry in run\<close>

text \<open>
  Lines 434-443 of \<open>run\<close>, for a segment comment \<open>cmt\<close>: \<open>None\<close> when the
  comment does not start with the six bytes of the prefix; otherwise the string at
  \<open>cmt\<close> once the pointer has moved past the prefix and the last byte has been
  overwritten with the terminator.
\<close>

definition run_cmt_name :: "string \<Rightarrow> string option" where
  "run_cmt_name cmt =
     (let fnlen = length cmt in
      if fnlen < 6 \<or> take 6 cmt \<noteq> ''\<newline>dep: '' then None
      else Some (butlast (drop 6 cmt)))"

text \<open>
  The body of the first loop of \<open>run\<close> (lines 424-466) for one segment, with the
  counter \<open>old\<close>. A comment that is the bare prefix leaves nothing to copy into the
  new node, whose file name is then not determined: the result is \<open>None\<close>.
\<close>

definition run_segm ::
  "host \<Rightarrow> segment option \<Rightarrow> session \<times> int \<Rightarrow> (segment option \<times> session \<times> int) option" where
  "run_segm h sg st =
     (case st of (s, old) \<Rightarrow>
        (case sg of
           None \<Rightarrow> Some (None, s, old)
         | Some segm \<Rightarrow>
             (case get_segment_cmt segm of
                None \<Rightarrow>
                  Some (Some (segm\<lparr>get_segment_cmt := Some ''\<newline>dep: original\<newline>''\<rparr>), s, old)
              | Some cmt \<Rightarrow>
                  (case run_cmt_name cmt of
                     None \<Rightarrow> Some (Some segm, s, old)
                   | Some fn \<Rightarrow>
                       let fnlen = length cmt - 6 in
                       if fnlen = 9 \<and> fn = ''original'' then Some (Some segm, s, old)
                       else
                         (case isloaded fn s of
                            None \<Rightarrow> None
                          | Some r \<Rightarrow>
                              if r \<noteq> 0 then Some (Some segm, s, old)
                              else
                                (case malloc h (sizeof_imports h + fnlen) s of
                                   (None, s1) \<Rightarrow> Some (Some segm, s1, old)
                                 | (Some a, s1) \<Rightarrow>
                                     if fnlen = 0 then None
                                     else
                                       (case link_imports a fn s1 of
                                          None \<Rightarrow> None
                                        | Some s2 \<Rightarrow> Some (Some segm, s2, old + 1))))))))"

section \<open>Facts about the C string functions\<close>

lemma cstr_append_NUL: "NUL \<notin> set s \<Longrightarrow> cstr (s @ NUL # r) = s"
  by (induction s) (auto simp: cstr_def)

lemma strrchr_None: "strrchr s c = None \<longleftrightarrow> c \<notin> set s"
  by (induction s) (auto split: option.splits)

lemma strrchr_last: "c \<notin> set ds \<Longrightarrow> strrchr (b @ c # ds) c = Some (length b)"
  by (induction b) (auto simp: strrchr_None[THEN iffD2] split: option.splits)

lemma strrchr_Some:
  "strrchr s c = Some i \<Longrightarrow> s = take i s @ c # drop (Suc i) s \<and> c \<notin> set (drop (Suc i) s) \<and> i < length s"
proof (induction s arbitrary: i)
  case Nil then show ?case by simp
next
  case (Cons x xs)
  then show ?case
    by (cases "strrchr xs c") (auto simp: strrchr_None split: if_splits)
qed

lemma numeric_suffix_iff:
  "numeric_suffix s \<longleftrightarrow> (\<forall>c\<in>set s. CHR ''0'' \<le> c \<and> c \<le> CHR ''9'')"
  by (induction s) auto

lemma strncmp_prefix: "strncmp n b (length b) = 0 \<longleftrightarrow> prefix b n"
  by (induction n b "length b" arbitrary:  rule: strncmp.induct) auto

lemma strcmp_eq: "strcmp a b = 0 \<longleftrightarrow> a = b"
  by (induction a b rule: strcmp.induct) auto

section \<open>The suffix test and the callback\<close>

lemma digits_no_NUL: "\<forall>c\<in>set ds. CHR ''0'' \<le> c \<and> c \<le> CHR ''9'' \<Longrightarrow> NUL \<notin> set ds"
  by (auto simp: NUL_def less_eq_char_def)

lemma digits_no_underscore: "\<forall>c\<in>set ds. CHR ''0'' \<le> c \<and> c \<le> CHR ''9'' \<Longrightarrow> CHR ''_'' \<notin> set ds"
  by (auto simp: less_eq_char_def)

lemma mapinexports_trunc_numeric:
  assumes b: "NUL \<notin> set b" and ds: "\<forall>c\<in>set ds. CHR ''0'' \<le> c \<and> c \<le> CHR ''9''"
  shows "mapinexports_trunc (b @ CHR ''_'' # ds @ [NUL]) = \<lparr>name = b @ NUL # ds @ [NUL], trunc = 1\<rparr>"
proof -
  have n0: "NUL \<notin> set ds" and u: "CHR ''_'' \<notin> set ds"
    using ds by (rule digits_no_NUL, rule digits_no_underscore)
  have "NUL \<notin> set (b @ CHR ''_'' # ds)" using b n0 by (simp add: NUL_def)
  then have c: "cstr ((b @ CHR ''_'' # ds) @ [NUL]) = b @ CHR ''_'' # ds"
    by (rule cstr_append_NUL)
  have p: "strrchr (b @ CHR ''_'' # ds) CHR ''_'' = Some (length b)"
    using u by (rule strrchr_last)
  have d: "cstr (drop (Suc (length b)) (b @ CHR ''_'' # ds @ [NUL])) = ds"
    using cstr_append_NUL [OF n0, of "[]"] by simp
  have n: "numeric_suffix ds" using ds by (simp add: numeric_suffix_iff)
  have upd: "(b @ CHR ''_'' # ds @ [NUL])[length b := NUL] = b @ NUL # ds @ [NUL]"
    by (simp add: list_update_append)
  show ?thesis
    using c p d n upd by (simp add: mapinexports_trunc_def)
qed

lemma mapinexports_trunc_iff:
  assumes n: "NUL \<notin> set n"
  shows "trunc (mapinexports_trunc (n @ [NUL])) = 1 \<longleftrightarrow>
    (\<exists>b ds. n = b @ CHR ''_'' # ds \<and> (\<forall>c\<in>set ds. CHR ''0'' \<le> c \<and> c \<le> CHR ''9''))"
proof
  assume t: "trunc (mapinexports_trunc (n @ [NUL])) = 1"
  have c: "cstr (n @ [NUL]) = n" using n by (rule cstr_append_NUL)
  from t c obtain i where i: "strrchr n CHR ''_'' = Some i"
    and num: "numeric_suffix (cstr (drop (Suc i) (n @ [NUL])))"
    by (auto simp: mapinexports_trunc_def split: option.splits if_splits)
  from strrchr_Some [OF i] have sp: "n = take i n @ CHR ''_'' # drop (Suc i) n" and il: "i < length n"
    by simp_all
  have "NUL \<notin> set (drop (Suc i) n)" using n by (meson in_set_dropD)
  then have "cstr (drop (Suc i) n @ [NUL]) = drop (Suc i) n" by (rule cstr_append_NUL)
  with num il have "numeric_suffix (drop (Suc i) n)" by simp
  then have "\<forall>c\<in>set (drop (Suc i) n). CHR ''0'' \<le> c \<and> c \<le> CHR ''9''"
    by (simp add: numeric_suffix_iff)
  with sp show "\<exists>b ds. n = b @ CHR ''_'' # ds \<and> (\<forall>c\<in>set ds. CHR ''0'' \<le> c \<and> c \<le> CHR ''9'')"
    by blast
next
  assume "\<exists>b ds. n = b @ CHR ''_'' # ds \<and> (\<forall>c\<in>set ds. CHR ''0'' \<le> c \<and> c \<le> CHR ''9'')"
  then obtain b ds where e: "n = b @ CHR ''_'' # ds" and ds: "\<forall>c\<in>set ds. CHR ''0'' \<le> c \<and> c \<le> CHR ''9''"
    by blast
  from n e have "NUL \<notin> set b" by simp
  from mapinexports_trunc_numeric [OF this ds] e
  show "trunc (mapinexports_trunc (n @ [NUL])) = 1" by simp
qed

lemma importmap_truncated:
  assumes b: "NUL \<notin> set b" and ds: "NUL \<notin> set ds"
  shows "importmap ea (Some n) ord (b @ NUL # ds @ [NUL], cs) =
    (1, b @ NUL # ds @ [NUL],
     if prefix b n then cs @ [(ea, ''import -> '' @ b @ CHR ''_'' # ds)] else cs)"
proof -
  let ?buf = "b @ NUL # ds @ [NUL]"
  have c: "cstr ?buf = b" using b by (rule cstr_append_NUL)
  then have l: "strlen ?buf = length b" by (simp add: strlen_def)
  have u1: "?buf[length b := CHR ''_''] = (b @ CHR ''_'' # ds) @ [NUL]"
    by (simp add: list_update_append)
  have "NUL \<notin> set (b @ CHR ''_'' # ds)" using b ds by (simp add: NUL_def)
  then have c1: "cstr ((b @ CHR ''_'' # ds) @ [NUL]) = b @ CHR ''_'' # ds"
    by (rule cstr_append_NUL)
  have u2: "((b @ CHR ''_'' # ds) @ [NUL])[length b := NUL] = ?buf"
    by (simp add: list_update_append)
  show ?thesis
    unfolding importmap_def
    by (simp only: prod.case option.case Let_def l c u1 c1 u2 strncmp_prefix set_cmt_def if_distrib
        split: if_splits) auto
qed

lemma enum_import_names_truncated:
  assumes b: "NUL \<notin> set b" and ds: "NUL \<notin> set ds"
  shows "enum_import_names m importmap (b @ NUL # ds @ [NUL], cs) =
    (b @ NUL # ds @ [NUL],
     cs @ map (\<lambda>e. (imp_ea e, ''import -> '' @ b @ CHR ''_'' # ds))
            (filter (\<lambda>e. case imp_name e of None \<Rightarrow> False | Some n \<Rightarrow> prefix b n) m))"
proof (induction m arbitrary: cs)
  case Nil
  show ?case by simp
next
  case (Cons e es)
  show ?case
  proof (cases "imp_name e")
    case None
    then show ?thesis using Cons.IH [of cs] by (simp add: importmap_def)
  next
    case (Some n)
    then show ?thesis
      using Cons.IH importmap_truncated [OF b ds, of "imp_ea e" n "imp_ord e" cs]
      by simp
  qed
qed

lemma mapinexports_modules_truncated:
  assumes b: "NUL \<notin> set b" and ds: "NUL \<notin> set ds"
  shows "mapinexports_modules ms (b @ NUL # ds @ [NUL], cs) =
    (b @ NUL # ds @ [NUL],
     cs @ map (\<lambda>e. (imp_ea e, ''import -> '' @ b @ CHR ''_'' # ds))
            (filter (\<lambda>e. case imp_name e of None \<Rightarrow> False | Some n \<Rightarrow> prefix b n) (concat ms)))"
  by (induction ms arbitrary: cs) (simp_all add: enum_import_names_truncated [OF b ds])

lemma mapinexports_func_truncated:
  assumes b: "NUL \<notin> set b" and ds: "\<forall>c\<in>set ds. CHR ''0'' \<le> c \<and> c \<le> CHR ''9''"
    and pub: "is_public_name f" and nm: "get_func_name f = Some (b @ CHR ''_'' # ds)"
  shows "mapinexports_func ms (Some f) cs =
     cs @ map (\<lambda>e. (imp_ea e, ''import -> '' @ b @ CHR ''_'' # ds))
            (filter (\<lambda>e. case imp_name e of None \<Rightarrow> False | Some n \<Rightarrow> prefix b n) (concat ms))"
proof -
  have n0: "NUL \<notin> set ds" using ds by (rule digits_no_NUL)
  have t: "mapinexports_trunc ((b @ CHR ''_'' # ds) @ [NUL]) = \<lparr>name = b @ NUL # ds @ [NUL], trunc = 1\<rparr>"
    using mapinexports_trunc_numeric [OF b ds] by simp
  show ?thesis
    using mapinexports_modules_truncated [OF b n0, of ms cs] t
    by (simp add: mapinexports_func_def pub nm)
qed

lemma get_cmt_append_same:
  assumes "(ea, t) \<in> set new" and "\<forall>p\<in>set new. snd p = t"
  shows "get_cmt (cs @ new) ea = Some t"
proof -
  from assms(1) have "ea \<in> fst ` set (rev new)" by force
  then obtain t' where t': "map_of (rev new) ea = Some t'"
    by (metis map_of_eq_None_iff not_Some_eq)
  then have "(ea, t') \<in> set new" using map_of_SomeD by fastforce
  with assms(2) have "t' = t" by auto
  with t' show ?thesis by (simp add: get_cmt_def)
qed

lemma importmap_appends: "\<exists>new. snd (snd (importmap ea nm ord (buf, cs))) = cs @ new"
  by (cases nm) (simp_all add: importmap_def Let_def set_cmt_def)

lemma enum_import_names_appends: "\<exists>new. snd (enum_import_names m importmap (buf, cs)) = cs @ new"
proof (induction m arbitrary: buf cs)
  case Nil
  show ?case by simp
next
  case (Cons e es)
  obtain r buf' cs' where r: "importmap (imp_ea e) (imp_name e) (imp_ord e) (buf, cs) = (r, buf', cs')"
    by (metis prod_cases3)
  with importmap_appends [of "imp_ea e" "imp_name e" "imp_ord e" buf cs]
  obtain n1 where n1: "cs' = cs @ n1" by auto
  from Cons.IH [of buf' cs'] obtain n2 where "snd (enum_import_names es importmap (buf', cs')) = cs' @ n2"
    by blast
  with r n1 show ?case by (cases "r = 0") auto
qed

lemma mapinexports_modules_appends: "\<exists>new. snd (mapinexports_modules ms (buf, cs)) = cs @ new"
proof (induction ms arbitrary: buf cs)
  case Nil
  show ?case by simp
next
  case (Cons m ms)
  obtain buf' cs' where r: "enum_import_names m importmap (buf, cs) = (buf', cs')"
    by (cases "enum_import_names m importmap (buf, cs)")
  with enum_import_names_appends [of m buf cs] obtain n1 where n1: "cs' = cs @ n1" by auto
  from Cons.IH [of buf' cs'] obtain n2 where "snd (mapinexports_modules ms (buf', cs')) = cs' @ n2"
    by blast
  with r n1 show ?case by auto
qed

lemma mapinexports_func_appends: "\<exists>new. mapinexports_func ms fn cs = cs @ new"
  using mapinexports_modules_appends [of ms _ cs]
  by (auto simp: mapinexports_func_def Let_def split: option.splits)

lemma mapinexports_appends: "\<exists>new. mapinexports ms fns cs = cs @ new"
proof (induction fns arbitrary: cs)
  case Nil
  show ?case by simp
next
  case (Cons fn fns)
  from mapinexports_func_appends [of ms fn cs] obtain n1 where n1: "mapinexports_func ms fn cs = cs @ n1"
    by blast
  from Cons.IH [of "cs @ n1"] obtain n2 where "mapinexports ms fns (cs @ n1) = (cs @ n1) @ n2"
    by blast
  with n1 show ?case by simp
qed

lemma mapinexports_mem:
  assumes f: "Some f \<in> set fns" and new: "\<And>cs. mapinexports_func ms (Some f) cs = cs @ new"
  shows "set new \<subseteq> set (mapinexports ms fns cs)"
  using f
proof (induction fns arbitrary: cs)
  case Nil
  then show ?case by simp
next
  case (Cons fn fns)
  show ?case
  proof (cases "fn = Some f")
    case True
    from mapinexports_appends [of ms fns "cs @ new"]
    obtain n2 where "mapinexports ms fns (cs @ new) = (cs @ new) @ n2" by blast
    with True new [of cs] show ?thesis by auto
  next
    case False
    with Cons.prems have "Some f \<in> set fns" by simp
    from Cons.IH [OF this] show ?thesis by simp
  qed
qed


section \<open>Claims about the resolver\<close>

text \<open>
  By \<open>mapinexports_trunc_iff\<close> the suffix test sets \<open>trunc\<close> exactly when the name has
  an underscore and every character after the last one is a decimal digit. A name that
  ends in the underscore passes: the loop of lines 376-383 does not run once and leaves
  \<open>ptr2\<close> non-null. The examples of the specification with a non-empty suffix, or
  without an underscore, come out as it says.
\<close>

lemma mapinexports_trunc_examples:
  "trunc (mapinexports_trunc (''Foo_123'' @ [NUL])) = 1"
  "cstr (name (mapinexports_trunc (''Foo_123'' @ [NUL]))) = ''Foo''"
  "trunc (mapinexports_trunc (''Foo_12a'' @ [NUL])) = 0"
  "trunc (mapinexports_trunc (''Foo'' @ [NUL])) = 0"
  by (simp_all add: mapinexports_trunc_def cstr_def NUL_def less_char_def)

text \<open>
  C1. Name-suffix detection: a name is truncated exactly when it has an underscore and
  what follows the last underscore is a non-empty run of decimal digits; \<open>Foo_\<close>, with
  its empty suffix, is not a candidate. The comment above line 372 asks for a name of the
  form \<open>*_xxxx\<close> with numbers for the \<open>x\<close>, but the code does not look for a first
  digit: on \<open>Foo_\<close> it sets \<open>trunc\<close> and cuts the name down to \<open>Foo\<close>.
\<close>

theorem mapinexports_trunc_empty_suffix:
  "trunc (mapinexports_trunc (''Foo_'' @ [NUL])) = 1 \<and>
   cstr (name (mapinexports_trunc (''Foo_'' @ [NUL]))) = ''Foo''"
  by (simp add: mapinexports_trunc_def cstr_def NUL_def)

text \<open>
  C2, as stated: the comment at a matching import is \<open>import -> \<close> followed by the
  truncated base name. It is not: before it formats the comment, \<open>importmap\<close> puts the
  underscore back where the terminator was (line 315), so the text carries the whole
  function name. For the function \<open>Foo_123\<close> and the import \<open>Foo@4\<close> the comment is
  not \<open>import -> Foo\<close>.
\<close>

theorem importmap_annotation_counterexample:
  "get_cmt (mapinexports_func
      [[\<lparr>imp_ea = 4096::nat, imp_name = Some ''Foo@4'', imp_ord = 0\<rparr>]]
      (Some \<lparr>startEA = 8192::nat, is_public_name = True, get_func_name = Some ''Foo_123''\<rparr>) []) 4096
   \<noteq> Some ''import -> Foo''"
  by (simp add: mapinexports_func_def mapinexports_trunc_def importmap_def cstr_def strlen_def
      NUL_def set_cmt_def get_cmt_def less_char_def Let_def)

text \<open>
  C2, amended: for every public function of the table whose name is a base \<open>b\<close>, an
  underscore and digits \<open>ds\<close>, and every import entry of every module whose name has
  \<open>b\<close> as a prefix, the comment at the entry's address once the function has been
  processed is \<open>import -> \<close> followed by the function's whole name \<open>b_ds\<close>, and
  this \<open>set_cmt\<close> call is among the calls of the whole sweep.
\<close>

theorem importmap_annotation_full_name:
  assumes "NUL \<notin> set b" and "\<forall>c\<in>set ds. CHR ''0'' \<le> c \<and> c \<le> CHR ''9''"
    and "is_public_name f" and "get_func_name f = Some (b @ CHR ''_'' # ds)"
    and "Some f \<in> set fns"
    and "m \<in> set ms" and "e \<in> set m" and "imp_name e = Some n" and "prefix b n"
  shows "get_cmt (mapinexports_func ms (Some f) cs) (imp_ea e)
           = Some (''import -> '' @ b @ CHR ''_'' # ds) \<and>
    (imp_ea e, ''import -> '' @ b @ CHR ''_'' # ds) \<in> set (mapinexports ms fns cs)"
proof -
  let ?t = "''import -> '' @ b @ CHR ''_'' # ds"
  let ?new = "map (\<lambda>e. (imp_ea e, ?t))
     (filter (\<lambda>e. case imp_name e of None \<Rightarrow> False | Some n \<Rightarrow> prefix b n) (concat ms))"
  have step: "mapinexports_func ms (Some f) cs = cs @ ?new" for cs
    using assms(1-4) by (rule mapinexports_func_truncated)
  have "e \<in> set (concat ms)" using assms(6,7) by auto
  then have mem: "(imp_ea e, ?t) \<in> set ?new" using assms(8,9) by force
  have same: "\<forall>p\<in>set ?new. snd p = ?t" by auto
  have 1: "get_cmt (mapinexports_func ms (Some f) cs) (imp_ea e) = Some ?t"
    unfolding step using mem same by (rule get_cmt_append_same)
  have 2: "(imp_ea e, ?t) \<in> set (mapinexports ms fns cs)"
    using mapinexports_mem [OF assms(5) step, of cs] mem by auto
  from 1 2 show ?thesis ..
qed

theorem importmap_annotation_full_name_witness:
  "get_cmt (mapinexports_func
      [[\<lparr>imp_ea = 4096::nat, imp_name = Some ''Foo@4'', imp_ord = 0\<rparr>]]
      (Some \<lparr>startEA = 8192::nat, is_public_name = True, get_func_name = Some ''Foo_123''\<rparr>) []) 4096
   = Some ''import -> Foo_123'' \<and>
   (4096, ''import -> Foo_123'') \<in> set (mapinexports
      [[\<lparr>imp_ea = 4096::nat, imp_name = Some ''Foo@4'', imp_ord = 0\<rparr>]]
      [Some \<lparr>startEA = 8192::nat, is_public_name = True, get_func_name = Some ''Foo_123''\<rparr>] [])"
  using importmap_annotation_full_name [of "''Foo''" "''123''"
      "\<lparr>startEA = 8192::nat, is_public_name = True, get_func_name = Some ''Foo_123''\<rparr>"
      "[Some \<lparr>startEA = 8192::nat, is_public_name = True, get_func_name = Some ''Foo_123''\<rparr>]"
      "[\<lparr>imp_ea = 4096::nat, imp_name = Some ''Foo@4'', imp_ord = 0\<rparr>]"
      "[[\<lparr>imp_ea = 4096::nat, imp_name = Some ''Foo@4'', imp_ord = 0\<rparr>]]"
      "\<lparr>imp_ea = 4096::nat, imp_name = Some ''Foo@4'', imp_ord = 0\<rparr>" "''Foo@4''" "[]"]
  by (simp add: NUL_def less_eq_char_def)

text \<open>
  C3. Import matching: for every truncated candidate with base name \<open>b\<close> and every import
  entry, \<open>importmap\<close> writes a comment exactly when the entry has a name and \<open>b\<close> is a
  prefix of it, character for character. An entry without a name never matches.
\<close>

theorem importmap_prefix_match:
  assumes "NUL \<notin> set b" and "\<forall>c\<in>set ds. CHR ''0'' \<le> c \<and> c \<le> CHR ''9''"
  shows "snd (snd (importmap ea nm ord
            (name (mapinexports_trunc (b @ CHR ''_'' # ds @ [NUL])), cs))) \<noteq> cs
         \<longleftrightarrow> (\<exists>n. nm = Some n \<and> prefix b n)"
proof -
  have n0: "NUL \<notin> set ds" using assms(2) by (rule digits_no_NUL)
  have t: "name (mapinexports_trunc (b @ CHR ''_'' # ds @ [NUL])) = b @ NUL # ds @ [NUL]"
    using mapinexports_trunc_numeric [OF assms] by simp
  show ?thesis
  proof (cases nm)
    case None
    then show ?thesis by (simp add: importmap_def)
  next
    case (Some n)
    then show ?thesis
      unfolding t using importmap_truncated [OF assms(1) n0, of ea n ord cs] by simp
  qed
qed

text \<open>
  The base \<open>Foo\<close> of \<open>Foo_1\<close> matches the import names \<open>Foo\<close>, \<open>Foo@4\<close> and
  \<open>FooBar\<close>; it matches neither \<open>Fo\<close>, \<open>xFoo\<close>, \<open>foo\<close> nor an import by ordinal.
\<close>

theorem importmap_prefix_match_witness:
  "snd (snd (importmap (4096::nat) (Some ''Foo'') 0
      (name (mapinexports_trunc (''Foo_1'' @ [NUL])), []))) \<noteq> [] \<and>
   snd (snd (importmap (4096::nat) (Some ''Foo@4'') 0
      (name (mapinexports_trunc (''Foo_1'' @ [NUL])), []))) \<noteq> [] \<and>
   snd (snd (importmap (4096::nat) (Some ''FooBar'') 0
      (name (mapinexports_trunc (''Foo_1'' @ [NUL])), []))) \<noteq> [] \<and>
   snd (snd (importmap (4096::nat) (Some ''Fo'') 0
      (name (mapinexports_trunc (''Foo_1'' @ [NUL])), []))) = [] \<and>
   snd (snd (importmap (4096::nat) (Some ''xFoo'') 0
      (name (mapinexports_trunc (''Foo_1'' @ [NUL])), []))) = [] \<and>
   snd (snd (importmap (4096::nat) (Some ''foo'') 0
      (name (mapinexports_trunc (''Foo_1'' @ [NUL])), []))) = [] \<and>
   snd (snd (importmap (4096::nat) None 7
      (name (mapinexports_trunc (''Foo_1'' @ [NUL])), []))) = []"
  using importmap_prefix_match [of "''Foo''" "''1''" 4096 "Some ''Foo''" 0 "[]"]
    importmap_prefix_match [of "''Foo''" "''1''" 4096 "Some ''Foo@4''" 0 "[]"]
    importmap_prefix_match [of "''Foo''" "''1''" 4096 "Some ''FooBar''" 0 "[]"]
    importmap_prefix_match [of "''Foo''" "''1''" 4096 "Some ''Fo''" 0 "[]"]
    importmap_prefix_match [of "''Foo''" "''1''" 4096 "Some ''xFoo''" 0 "[]"]
    importmap_prefix_match [of "''Foo''" "''1''" 4096 "Some ''foo''" 0 "[]"]
    importmap_prefix_match [of "''Foo''" "''1''" 4096 "None" 7 "[]"]
  by (simp add: NUL_def less_eq_char_def)

text \<open>
  C9. Empty base: for a public function whose name is an underscore followed only by
  decimal digits, truncation leaves the empty base name, the empty string is a prefix of
  every import name, and so every named import entry of every module is annotated for
  that function: the comment at its address once the function has been processed is
  \<open>import -> \<close> and the function's name, and that \<open>set_cmt\<close> call is among the calls
  of the whole sweep.
\<close>

theorem mapinexports_empty_base:
  assumes "\<forall>c\<in>set ds. CHR ''0'' \<le> c \<and> c \<le> CHR ''9''"
    and "is_public_name f" and "get_func_name f = Some (CHR ''_'' # ds)"
    and "Some f \<in> set fns"
    and "m \<in> set ms" and "e \<in> set m" and "imp_name e = Some n"
  shows "cstr (name (mapinexports_trunc (CHR ''_'' # ds @ [NUL]))) = [] \<and>
    prefix [] n \<and>
    get_cmt (mapinexports_func ms (Some f) cs) (imp_ea e)
      = Some (''import -> '' @ CHR ''_'' # ds) \<and>
    (imp_ea e, ''import -> '' @ CHR ''_'' # ds) \<in> set (mapinexports ms fns cs)"
proof -
  let ?t = "''import -> '' @ [] @ CHR ''_'' # ds"
  let ?new = "map (\<lambda>e. (imp_ea e, ?t))
     (filter (\<lambda>e. case imp_name e of None \<Rightarrow> False | Some n \<Rightarrow> prefix [] n) (concat ms))"
  have b: "NUL \<notin> set []" by simp
  have nm: "get_func_name f = Some ([] @ CHR ''_'' # ds)" using assms(3) by simp
  have step: "mapinexports_func ms (Some f) cs = cs @ ?new" for cs
    using b assms(1,2) nm by (rule mapinexports_func_truncated)
  have "e \<in> set (concat ms)" using assms(5,6) by auto
  then have mem: "(imp_ea e, ?t) \<in> set ?new" using assms(7) by force
  have same: "\<forall>p\<in>set ?new. snd p = ?t" by auto
  have 1: "cstr (name (mapinexports_trunc (CHR ''_'' # ds @ [NUL]))) = []"
    using mapinexports_trunc_numeric [OF b assms(1)] by (simp add: cstr_def)
  have 2: "get_cmt (mapinexports_func ms (Some f) cs) (imp_ea e)
      = Some (''import -> '' @ CHR ''_'' # ds)"
    unfolding step using get_cmt_append_same [OF mem same] by simp
  have 3: "(imp_ea e, ''import -> '' @ CHR ''_'' # ds) \<in> set (mapinexports ms fns cs)"
    using mapinexports_mem [OF assms(4) step, of cs] mem by auto
  from 1 2 3 show ?thesis by simp
qed

theorem mapinexports_empty_base_witness:
  "get_cmt (mapinexports_func
      [[\<lparr>imp_ea = 4096::nat, imp_name = Some ''CreateFileA'', imp_ord = 0\<rparr>,
        \<lparr>imp_ea = 4100, imp_name = None, imp_ord = 17\<rparr>],
       [\<lparr>imp_ea = 4104, imp_name = Some ''recv'', imp_ord = 0\<rparr>]]
      (Some \<lparr>startEA = 8192::nat, is_public_name = True, get_func_name = Some ''_123''\<rparr>) [])
      4104 = Some ''import -> _123'' \<and>
   (4104, ''import -> _123'') \<in> set (mapinexports
      [[\<lparr>imp_ea = 4096::nat, imp_name = Some ''CreateFileA'', imp_ord = 0\<rparr>,
        \<lparr>imp_ea = 4100, imp_name = None, imp_ord = 17\<rparr>],
       [\<lparr>imp_ea = 4104, imp_name = Some ''recv'', imp_ord = 0\<rparr>]]
      [None, Some \<lparr>startEA = 8192::nat, is_public_name = True, get_func_name = Some ''_123''\<rparr>]
      [])"
  using mapinexports_empty_base [of "''123''"
      "\<lparr>startEA = 8192::nat, is_public_name = True, get_func_name = Some ''_123''\<rparr>"
      "[None, Some \<lparr>startEA = 8192::nat, is_public_name = True, get_func_name = Some ''_123''\<rparr>]"
      "[\<lparr>imp_ea = 4104::nat, imp_name = Some ''recv'', imp_ord = 0\<rparr>]"
      "[[\<lparr>imp_ea = 4096::nat, imp_name = Some ''CreateFileA'', imp_ord = 0\<rparr>,
        \<lparr>imp_ea = 4100, imp_name = None, imp_ord = 17\<rparr>],
       [\<lparr>imp_ea = 4104, imp_name = Some ''recv'', imp_ord = 0\<rparr>]]"
      "\<lparr>imp_ea = 4104::nat, imp_name = Some ''recv'', imp_ord = 0\<rparr>" "''recv''" "[]"]
  by (simp add: less_eq_char_def)

section \<open>The registry in the store\<close>

lemma chain_snoc:
  assumes "chain hp p (ns @ [(l, x)])" and "distinct (map fst (ns @ [(l, x)]))"
    and "a \<notin> fst ` set (ns @ [(l, x)])" and "hp l = Some n"
    and "hp' = hp(a \<mapsto> \<lparr>nextp = Null, filename = fn\<rparr>, l \<mapsto> n\<lparr>nextp := Addr a\<rparr>)"
  shows "chain hp' p (ns @ [(l, x), (a, fn)])"
  using assms(1-3)
proof (induction ns arbitrary: p)
  case Nil
  then show ?case using assms(4,5) by auto
next
  case (Cons b ns)
  obtain c y where b: "b = (c, y)" by (cases b)
  from Cons.prems b obtain m where m: "hp c = Some m" "filename m = y" "p = Addr c"
    and rest: "chain hp (nextp m) (ns @ [(l, x)])"
    by (auto split: option.splits)
  have ne: "c \<noteq> l" "c \<noteq> a" using Cons.prems b by auto
  then have c: "hp' c = Some m" using m(1) assms(5) by simp
  have d: "distinct (map fst (ns @ [(l, x)]))" using Cons.prems(2) by simp
  have f: "a \<notin> fst ` set (ns @ [(l, x)])" using Cons.prems(3) by simp
  have "chain hp' (nextp m) (ns @ [(l, x), (a, fn)])"
    using rest d f by (rule Cons.IH)
  then show ?case using m c b by simp
qed

lemma isloaded_loop_chain:
  "chain (heap s) p ns \<Longrightarrow>
   isloaded_loop s fn p = Some (if fn \<in> snd ` set ns then 1 else 0)"
proof (induction ns arbitrary: p)
  case Nil
  then show ?case by (simp add: isloaded_loop.simps)
next
  case (Cons b ns)
  obtain c y where b: "b = (c, y)" by (cases b)
  from Cons.prems b obtain m where m: "heap s c = Some m" "filename m = y" "p = Addr c"
    and rest: "chain (heap s) (nextp m) ns"
    by (auto split: option.splits)
  show ?case
    using m b Cons.IH [OF rest]
    by (subst isloaded_loop.simps) (auto simp: deref_def strcmp_eq)
qed

lemma listloaded_loop_chain:
  "chain (heap s) p ns \<Longrightarrow>
   listloaded_loop s p out =
     Some (out @ map (\<lambda>n. ''>>>> '' @ [CHR 0x27] @ snd n @ [CHR 0x27] @ ''\<newline>'') ns)"
proof (induction ns arbitrary: p out)
  case Nil
  then show ?case by (simp add: listloaded_loop.simps)
next
  case (Cons b ns)
  obtain c y where b: "b = (c, y)" by (cases b)
  from Cons.prems b obtain m where m: "heap s c = Some m" "filename m = y" "p = Addr c"
    and rest: "chain (heap s) (nextp m) ns"
    by (auto split: option.splits)
  show ?case
    using m b Cons.IH [OF rest]
    by (subst listloaded_loop.simps) (simp add: deref_def)
qed

lemma registry_isloaded:
  "registry s ns \<Longrightarrow> isloaded fn s = Some (if fn \<in> snd ` set ns then 1 else 0)"
  by (simp add: registry_def isloaded_def isloaded_loop_chain)

lemma registry_listloaded:
  "registry s ns \<Longrightarrow>
   listloaded s =
     Some ((''--------------------------\<newline>'' @ ''Currently loaded files:\<newline>'' @
            ''--------------------------\<newline>'') #
           map (\<lambda>n. ''>>>> '' @ [CHR 0x27] @ snd n @ [CHR 0x27] @ ''\<newline>'') ns)"
  using listloaded_loop_chain [of s "nextp (loadedbase s)" ns
      "[''--------------------------\<newline>'' @ ''Currently loaded files:\<newline>'' @
        ''--------------------------\<newline>'']"]
  by (simp add: registry_def listloaded_def)

lemma registry_frame:
  assumes "registry s ns" and "heap s' = heap s" and "loadedbase s' = loadedbase s"
    and "loadedend s' = loadedend s" and "brk s \<le> brk s'"
  shows "registry s' ns"
  using assms by (auto simp: registry_def list_all_iff)

lemma chain_last_node:
  "chain hp p (ns @ [(l, x)]) \<Longrightarrow> \<exists>n. hp l = Some n"
  by (induction ns arbitrary: p) (auto split: option.splits)

lemma link_imports_appends:
  assumes r: "registry s ns" and a: "brk s = Suc a" and f: "list_all (\<lambda>n. fst n < a) ns"
  shows "\<exists>s'. link_imports a fn s = Some s' \<and> registry s' (ns @ [(a, fn)]) \<and>
           segments s' = segments s \<and> trace s' = trace s \<and> brk s' = brk s"
proof (cases ns rule: rev_cases)
  case Nil
  with r a show ?thesis
    by (simp add: registry_def link_imports_def set_next_def)
next
  case (snoc ms b)
  obtain l x where b: "b = (l, x)" by (cases b)
  from r snoc b have ch: "chain (heap s) (nextp (loadedbase s)) (ms @ [(l, x)])"
    and d: "distinct (map fst (ms @ [(l, x)]))" and le: "loadedend s = Addr l"
    by (simp_all add: registry_def)
  from f snoc b have fr: "a \<notin> fst ` set (ms @ [(l, x)])" by (auto simp: list_all_iff)
  then have al: "a \<noteq> l" by auto
  from chain_last_node [OF ch] obtain n where n: "heap s l = Some n" by blast
  let ?hp = "(heap s)(a \<mapsto> \<lparr>nextp = Null, filename = fn\<rparr>, l \<mapsto> n\<lparr>nextp := Addr a\<rparr>)"
  have c: "chain ?hp (nextp (loadedbase s)) (ms @ [(l, x), (a, fn)])"
    using ch d fr n by (rule chain_snoc) simp
  have li: "link_imports a fn s = Some (s\<lparr>heap := ?hp, loadedend := Addr a\<rparr>)"
    using le n al by (simp add: link_imports_def set_next_def)
  have "registry (s\<lparr>heap := ?hp, loadedend := Addr a\<rparr>) (ns @ [(a, fn)])"
    using c d fr f a snoc b by (auto simp: registry_def list_all_iff)
  with li show ?thesis by simp
qed

section \<open>The branches of load\<close>

lemma load_already:
  assumes "registry s ns" and "fn \<in> snd ` set ns"
  shows "load h fn s = Some (- 2, s)"
  using registry_isloaded [OF assms(1), of fn] assms(2) by (simp add: load_def)

lemma load_open_fails:
  assumes "registry s ns" and "fn \<notin> snd ` set ns" and "open_linput h fn = None"
  shows "load h fn s = Some (- 1, s)"
  using registry_isloaded [OF assms(1), of fn] assms(2,3) by (simp add: load_def)

lemma load_loaders_fail:
  assumes "registry s ns" and "fn \<notin> snd ` set ns" and "open_linput h fn = Some li"
    and "build_loaders_list h li = None"
  shows "load h fn s =
    Some (- 1, s\<lparr>trace := trace s @ [Acquire (Linput li), Release (Linput li)]\<rparr>)"
  using registry_isloaded [OF assms(1), of fn] assms(2-4)
  by (simp add: load_def close_linput_def)

lemma load_malloc_fails:
  assumes "registry s ns" and "fn \<notin> snd ` set ns" and "open_linput h fn = Some li"
    and "build_loaders_list h li = Some ld"
    and "\<not> malloc_succeeds h (sizeof_imports h + (length fn + 1))"
  shows "load h fn s =
    Some (- 1, s\<lparr>trace := trace s @
      [Acquire (Linput li), Acquire (Loaders ld), Release (Loaders ld), Release (Linput li)]\<rparr>)"
  using registry_isloaded [OF assms(1), of fn] assms(2-5)
  by (simp add: load_def close_linput_def free_loaders_list_def malloc_def)

lemma load_import_fails:
  assumes "registry s ns" and "fn \<notin> snd ` set ns" and "open_linput h fn = Some li"
    and "build_loaders_list h li = Some ld"
    and "malloc_succeeds h (sizeof_imports h + (length fn + 1))"
    and "load_nonbinary_file h fn li ld (segments s) = (False, sg)"
  shows "load h fn s =
    Some (- 1, s\<lparr>brk := Suc (brk s), segments := sg, trace := trace s @
      [Acquire (Linput li), Acquire (Loaders ld), Acquire (Node (brk s)),
       Release (Node (brk s)), Release (Loaders ld), Release (Linput li)]\<rparr>)"
  using registry_isloaded [OF assms(1), of fn] assms(2-6)
  by (simp add: load_def close_linput_def free_loaders_list_def free_def malloc_def)

lemma load_succeeds:
  assumes "registry s ns" and "fn \<notin> snd ` set ns" and "open_linput h fn = Some li"
    and "build_loaders_list h li = Some ld"
    and "malloc_succeeds h (sizeof_imports h + (length fn + 1))"
    and "load_nonbinary_file h fn li ld (segments s) = (True, sg)"
  shows "\<exists>s'. load h fn s = Some (0, s') \<and> registry s' (ns @ [(brk s, fn)]) \<and>
    segments s' = map (load_segm h fn) sg \<and> brk s' = Suc (brk s) \<and>
    trace s' = trace s @
      [Acquire (Linput li), Acquire (Loaders ld), Acquire (Node (brk s)),
       Release (Loaders ld), Release (Linput li)]"
proof -
  let ?s5 = "s\<lparr>brk := Suc (brk s), segments := map (load_segm h fn) sg, trace := trace s @
      [Acquire (Linput li), Acquire (Loaders ld), Acquire (Node (brk s)),
       Release (Loaders ld), Release (Linput li)]\<rparr>"
  have r5: "registry ?s5 ns"
    using assms(1) by (rule registry_frame) simp_all
  have f: "list_all (\<lambda>n. fst n < brk s) ns" using assms(1) by (simp add: registry_def)
  have b: "brk ?s5 = Suc (brk s)" by simp
  from link_imports_appends [OF r5 b f, of fn]
  obtain s' where s': "link_imports (brk s) fn ?s5 = Some s'"
    and r: "registry s' (ns @ [(brk s, fn)])"
    and fr: "segments s' = segments ?s5" "trace s' = trace ?s5" "brk s' = brk ?s5"
    by blast
  have "load h fn s = Some (0, s')"
    using registry_isloaded [OF assms(1), of fn] assms(2-6) s'
    by (simp add: load_def close_linput_def free_loaders_list_def malloc_def)
  with r fr show ?thesis by simp
qed

lemma released_once_2:
  "count_list [Acquire (Linput li), Release (Linput li)] (Release r) =
     count_list [Acquire (Linput li), Release (Linput li)] (Acquire r) \<and>
   count_list [Acquire (Linput li), Release (Linput li)] (Acquire r) \<le> 1"
  by (cases r) simp_all

lemma released_once_4:
  "count_list [Acquire (Linput li), Acquire (Loaders ld), Release (Loaders ld),
      Release (Linput li)] (Release r) =
     count_list [Acquire (Linput li), Acquire (Loaders ld), Release (Loaders ld),
      Release (Linput li)] (Acquire r) \<and>
   count_list [Acquire (Linput li), Acquire (Loaders ld), Release (Loaders ld),
      Release (Linput li)] (Acquire r) \<le> 1"
  by (cases r) simp_all

lemma released_once_6:
  "count_list [Acquire (Linput li), Acquire (Loaders ld), Acquire (Node a),
      Release (Node a), Release (Loaders ld), Release (Linput li)] (Release r) =
     count_list [Acquire (Linput li), Acquire (Loaders ld), Acquire (Node a),
      Release (Node a), Release (Loaders ld), Release (Linput li)] (Acquire r) \<and>
   count_list [Acquire (Linput li), Acquire (Loaders ld), Acquire (Node a),
      Release (Node a), Release (Loaders ld), Release (Linput li)] (Acquire r) \<le> 1"
  by (cases r) simp_all

text \<open>
  Every call of \<open>load\<close> on a well-formed registry returns, in one of three ways.
\<close>

lemma load_cases:
  assumes r: "registry s ns"
  obtains
    (loaded) "fn \<in> snd ` set ns" "load h fn s = Some (- 2, s)"
  | (failed) s' es where "fn \<notin> snd ` set ns" "load h fn s = Some (- 1, s')" "registry s' ns"
      "heap s' = heap s" "loadedbase s' = loadedbase s" "loadedend s' = loadedend s"
      "trace s' = trace s @ es"
      "\<forall>r. count_list es (Release r) = count_list es (Acquire r) \<and> count_list es (Acquire r) \<le> 1"
  | (ok) s' li ld sg where "fn \<notin> snd ` set ns" "load h fn s = Some (0, s')"
      "registry s' (ns @ [(brk s, fn)])"
      "open_linput h fn = Some li" "build_loaders_list h li = Some ld"
      "malloc_succeeds h (sizeof_imports h + (length fn + 1))"
      "load_nonbinary_file h fn li ld (segments s) = (True, sg)"
      "segments s' = map (load_segm h fn) sg"
      "trace s' = trace s @
        [Acquire (Linput li), Acquire (Loaders ld), Acquire (Node (brk s)),
         Release (Loaders ld), Release (Linput li)]"
proof (cases "fn \<in> snd ` set ns")
  case True
  then show ?thesis using load_already [OF r] loaded by blast
next
  case nl: False
  show ?thesis
  proof (cases "open_linput h fn")
    case None
    have "load h fn s = Some (- 1, s)" using r nl None by (rule load_open_fails)
    then show ?thesis using failed [of s "[]"] nl r by simp
  next
    case (Some li)
    show ?thesis
    proof (cases "build_loaders_list h li")
      case None
      let ?es = "[Acquire (Linput li), Release (Linput li)]"
      have l: "load h fn s = Some (- 1, s\<lparr>trace := trace s @ ?es\<rparr>)"
        using r nl Some None by (rule load_loaders_fail)
      have "registry (s\<lparr>trace := trace s @ ?es\<rparr>) ns"
        using r by (rule registry_frame) simp_all
      then show ?thesis using failed [of _ ?es] nl l released_once_2 [of li] by simp
    next
      case ld: (Some ld)
      show ?thesis
      proof (cases "malloc_succeeds h (sizeof_imports h + (length fn + 1))")
        case False
        let ?es = "[Acquire (Linput li), Acquire (Loaders ld), Release (Loaders ld), Release (Linput li)]"
        have l: "load h fn s = Some (- 1, s\<lparr>trace := trace s @ ?es\<rparr>)"
          using r nl Some ld False by (rule load_malloc_fails)
        have "registry (s\<lparr>trace := trace s @ ?es\<rparr>) ns"
          using r by (rule registry_frame) simp_all
        then show ?thesis using failed [of _ ?es] nl l released_once_4 [of li ld] by simp
      next
        case True
        obtain ok sg where lf: "load_nonbinary_file h fn li ld (segments s) = (ok, sg)"
          by (cases "load_nonbinary_file h fn li ld (segments s)")
        show ?thesis
        proof (cases ok)
          case False
          let ?es = "[Acquire (Linput li), Acquire (Loaders ld), Acquire (Node (brk s)),
            Release (Node (brk s)), Release (Loaders ld), Release (Linput li)]"
          let ?s' = "s\<lparr>brk := Suc (brk s), segments := sg, trace := trace s @ ?es\<rparr>"
          have l: "load h fn s = Some (- 1, ?s')"
            using r nl Some ld True lf False by (simp add: load_import_fails)
          have "registry ?s' ns"
            using r by (rule registry_frame) simp_all
          then show ?thesis using failed [of ?s' ?es] nl l released_once_6 [of li ld "brk s"] by simp
        next
          case ok': True
          from load_succeeds [OF r nl Some ld True lf [unfolded ok' [THEN eqTrueI]]]
          show ?thesis using ok [OF nl _ _ Some ld True lf [unfolded ok' [THEN eqTrueI]]] by blast
        qed
      qed
    qed
  qed
qed

lemma load_ok_registry:
  assumes "registry s ns" and "load h fn s = Some (0, s')"
  shows "registry s' (ns @ [(brk s, fn)]) \<and> fn \<notin> snd ` set ns \<and> brk s' = Suc (brk s)"
  using assms(1)
proof (cases rule: load_cases [where fn = fn and h = h])
  case loaded
  with assms(2) show ?thesis by simp
next
  case (failed s'' es)
  with assms(2) show ?thesis by simp
next
  case (ok s'' li ld sg)
  from load_succeeds [OF assms(1) ok(1,4,5,6,7)] assms(2) ok(1) show ?thesis by auto
qed

lemma load_segm_no_backslash: "backslash \<notin> set fn \<Longrightarrow> load_segm h fn sg = sg"
  by (auto simp: load_segm_def strrchr_None [THEN iffD2] split: option.splits)

lemma load_segm_changes:
  "load_segm h fn sg \<noteq> sg \<Longrightarrow>
   backslash \<in> set fn \<and>
   (\<exists>segm segn. sg = Some segm \<and> get_segm_name segm = Some segn \<and> get_segment_cmt segm = None)"
  by (cases "backslash \<in> set fn")
    (auto simp: load_segm_def strrchr_None [THEN iffD2] split: option.splits)

text \<open>
  The text of line 217, read back by lines 434-443, gives the path. \<open>segn\<close> holds this
  text when the path leaves room for the seven bytes around it and the terminator.
\<close>

lemma run_cmt_name_text: "run_cmt_name (''\<newline>dep: '' @ fn @ ''\<newline>'') = Some fn"
  by (simp add: run_cmt_name_def butlast_append)

lemma dep_cmt_fits:
  "length fn + 8 \<le> QMAXPATH h \<Longrightarrow> dep_cmt h segn fn = ''\<newline>dep: '' @ fn @ ''\<newline>''"
  by (simp add: dep_cmt_def)

lemma run_cmt_name_dep_cmt:
  "length fn + 8 \<le> QMAXPATH h \<Longrightarrow> run_cmt_name (dep_cmt h segn fn) = Some fn"
  using run_cmt_name_text [of fn] by (simp add: dep_cmt_fits)

text \<open>
  A comment that gives back a non-empty path is seven bytes longer than the path. So
  when the path has \<open>QMAXPATH - 7\<close> bytes or more, nothing that fits \<open>segn\<close> gives it
  back, whatever the failed call of \<open>sprintf_s\<close> has left there.
\<close>

lemma run_cmt_name_length:
  assumes "run_cmt_name c = Some fn" and "fn \<noteq> []"
  shows "length c = length fn + 7"
proof -
  from assms(1) have 6: "6 \<le> length c" and fn: "fn = butlast (drop 6 c)"
    by (auto simp: run_cmt_name_def Let_def split: if_splits)
  from fn assms(2) have "drop 6 c \<noteq> []" by auto
  with fn 6 show ?thesis by simp
qed

lemma dep_cmt_overflow:
  assumes "QMAXPATH h \<le> length fn + 7" and "fn \<noteq> []"
    and "length (sprintf_s_overflow h segn (''\<newline>dep: '' @ fn @ ''\<newline>'')) < QMAXPATH h"
  shows "run_cmt_name (dep_cmt h segn fn) \<noteq> Some fn"
proof
  assume "run_cmt_name (dep_cmt h segn fn) = Some fn"
  from run_cmt_name_length [OF this assms(2)] assms(1,3) show False
    by (simp add: dep_cmt_def)
qed

lemma run_segm_restores:
  assumes "registry s ns" and "fn \<notin> snd ` set ns" and "fn \<noteq> ''original''"
    and "get_segment_cmt segm = Some (''\<newline>dep: '' @ fn @ ''\<newline>'')"
    and "malloc_succeeds h (sizeof_imports h + (length fn + 1))"
  shows "\<exists>s'. run_segm h (Some segm) (s, old) = Some (Some segm, s', old + 1) \<and>
    registry s' (ns @ [(brk s, fn)])"
proof -
  let ?s1 = "s\<lparr>brk := Suc (brk s), trace := trace s @ [Acquire (Node (brk s))]\<rparr>"
  have r1: "registry ?s1 ns" using assms(1) by (rule registry_frame) simp_all
  have f: "list_all (\<lambda>n. fst n < brk s) ns" using assms(1) by (simp add: registry_def)
  have b: "brk ?s1 = Suc (brk s)" by simp
  from link_imports_appends [OF r1 b f, of fn]
  obtain s' where s': "link_imports (brk s) fn ?s1 = Some s'"
    and r: "registry s' (ns @ [(brk s, fn)])" by blast
  have "run_segm h (Some segm) (s, old) = Some (Some segm, s', old + 1)"
    using registry_isloaded [OF assms(1), of fn] assms(2-5) s'
    by (simp add: run_segm_def run_cmt_name_text [simplified] malloc_def)
  with r show ?thesis by blast
qed

text \<open>
  The first loop of \<open>run\<close> keeps the registry well formed too: whatever a segment's
  comment is, the entries found stay in place and the file names stay distinct.
\<close>

lemma run_segm_registry:
  assumes r: "registry s ns" and d: "distinct (map snd ns)"
    and run: "run_segm h sg (s, old) = Some (sg', s', old')"
  shows "\<exists>ms. registry s' ms \<and> prefix ns ms \<and> distinct (map snd ms)"
proof -
  have same: ?thesis if "heap s' = heap s" "loadedbase s' = loadedbase s"
    "loadedend s' = loadedend s" "brk s \<le> brk s'"
    using registry_frame [OF r that] d by blast
  show ?thesis
  proof (cases "\<exists>segm cmt fn. sg = Some segm \<and> get_segment_cmt segm = Some cmt \<and>
      run_cmt_name cmt = Some fn \<and> \<not> (length cmt - 6 = 9 \<and> fn = ''original'') \<and>
      fn \<notin> snd ` set ns \<and> malloc_succeeds h (sizeof_imports h + (length cmt - 6))")
    case False
    then have "s' = s"
      using run registry_isloaded [OF r]
      by (auto simp: run_segm_def Let_def malloc_def split: option.splits if_splits prod.splits)
    then show ?thesis using same by simp
  next
    case True
    then obtain segm cmt fn where sg: "sg = Some segm" "get_segment_cmt segm = Some cmt"
      "run_cmt_name cmt = Some fn" "\<not> (length cmt - 6 = 9 \<and> fn = ''original'')"
      "fn \<notin> snd ` set ns" "malloc_succeeds h (sizeof_imports h + (length cmt - 6))"
      by blast
    let ?s1 = "s\<lparr>brk := Suc (brk s), trace := trace s @ [Acquire (Node (brk s))]\<rparr>"
    have r1: "registry ?s1 ns" using r by (rule registry_frame) simp_all
    have f: "list_all (\<lambda>n. fst n < brk s) ns" using r by (simp add: registry_def)
    have b: "brk ?s1 = Suc (brk s)" by simp
    from link_imports_appends [OF r1 b f, of fn]
    obtain s2 where s2: "link_imports (brk s) fn ?s1 = Some s2"
      and r2: "registry s2 (ns @ [(brk s, fn)])" by blast
    have "s' = s2"
      using run registry_isloaded [OF r, of fn] sg s2
      by (auto simp: run_segm_def Let_def malloc_def split: if_splits)
    with r2 sg(5) d show ?thesis by auto
  qed
qed

section \<open>Claims about load and the registry\<close>

text \<open>
  C4. Failure atomicity: when \<open>load\<close> gets past the already-loaded check and a later
  step fails (the file does not open, no loader is found, the allocation fails, or
  \<open>load_nonbinary_file\<close> fails), it returns -1, the registry is as before (the same
  nodes, the same two globals, the same listing), and every resource acquired during the
  call is released exactly once: in the events of the call each resource is acquired at
  most once and released as often as acquired.
\<close>

theorem load_failure_atomic:
  assumes "registry s ns" and "fn \<notin> snd ` set ns"
    and "open_linput h fn = None \<or>
      (\<exists>li. open_linput h fn = Some li \<and>
        (build_loaders_list h li = None \<or>
          (\<exists>ld. build_loaders_list h li = Some ld \<and>
            (\<not> malloc_succeeds h (sizeof_imports h + (length fn + 1)) \<or>
             \<not> fst (load_nonbinary_file h fn li ld (segments s))))))"
  shows "\<exists>s' es. load h fn s = Some (- 1, s') \<and>
    registry s' ns \<and> listloaded s' = listloaded s \<and>
    heap s' = heap s \<and> loadedbase s' = loadedbase s \<and> loadedend s' = loadedend s \<and>
    trace s' = trace s @ es \<and>
    (\<forall>r. count_list es (Release r) = count_list es (Acquire r) \<and>
         count_list es (Acquire r) \<le> 1)"
  using assms(1)
proof (cases rule: load_cases [where fn = fn and h = h])
  case loaded
  with assms(2) show ?thesis by simp
next
  case (failed s' es)
  moreover have "listloaded s' = listloaded s"
    using registry_listloaded [OF assms(1)] registry_listloaded [OF failed(3)] by simp
  ultimately show ?thesis by blast
next
  case (ok s' li ld sg)
  with assms(3) show ?thesis by simp
qed

text \<open>
  The four causes of failure on an empty registry, each with the events of the call.
\<close>

theorem load_failure_atomic_witness:
  "(\<exists>s'. load
       \<lparr>open_linput = (\<lambda>f. None), build_loaders_list = (\<lambda>l. Some 5),
        malloc_succeeds = (\<lambda>n. True), sizeof_imports = 4, QMAXPATH = 260,
             sprintf_s_overflow = (\<lambda>b t. []),
        load_nonbinary_file = (\<lambda>f l d sg. (True, sg))\<rparr>
       ''C:/lib/a.dll'' (init_session []) = Some (- 1, s') \<and>
     registry s' [] \<and> listloaded s' = listloaded (init_session []) \<and>
     trace s' = []) \<and>
   (\<exists>s'. load
       \<lparr>open_linput = (\<lambda>f. Some 3), build_loaders_list = (\<lambda>l. None),
        malloc_succeeds = (\<lambda>n. True), sizeof_imports = 4, QMAXPATH = 260,
             sprintf_s_overflow = (\<lambda>b t. []),
        load_nonbinary_file = (\<lambda>f l d sg. (True, sg))\<rparr>
       ''C:/lib/a.dll'' (init_session []) = Some (- 1, s') \<and>
     registry s' [] \<and> listloaded s' = listloaded (init_session []) \<and>
     trace s' = [Acquire (Linput 3), Release (Linput 3)]) \<and>
   (\<exists>s'. load
       \<lparr>open_linput = (\<lambda>f. Some 3), build_loaders_list = (\<lambda>l. Some 5),
        malloc_succeeds = (\<lambda>n. False), sizeof_imports = 4, QMAXPATH = 260,
             sprintf_s_overflow = (\<lambda>b t. []),
        load_nonbinary_file = (\<lambda>f l d sg. (True, sg))\<rparr>
       ''C:/lib/a.dll'' (init_session []) = Some (- 1, s') \<and>
     registry s' [] \<and> listloaded s' = listloaded (init_session []) \<and>
     trace s' = [Acquire (Linput 3), Acquire (Loaders 5), Release (Loaders 5), Release (Linput 3)]) \<and>
   (\<exists>s'. load
       \<lparr>open_linput = (\<lambda>f. Some 3), build_loaders_list = (\<lambda>l. Some 5),
        malloc_succeeds = (\<lambda>n. True), sizeof_imports = 4, QMAXPATH = 260,
             sprintf_s_overflow = (\<lambda>b t. []),
        load_nonbinary_file = (\<lambda>f l d sg. (False, sg))\<rparr>
       ''C:/lib/a.dll'' (init_session []) = Some (- 1, s') \<and>
     registry s' [] \<and> listloaded s' = listloaded (init_session []) \<and>
     trace s' = [Acquire (Linput 3), Acquire (Loaders 5), Acquire (Node 0),
                 Release (Node 0), Release (Loaders 5), Release (Linput 3)])"
proof -
  let ?p = "''C:/lib/a.dll''"
  have r: "registry (init_session []) []" by (simp add: registry_def init_session_def)
  have n: "?p \<notin> snd ` set ([] :: (addr \<times> string) list)" by simp
  have 1: "\<exists>s'. load h ?p (init_session []) = Some (- 1, s') \<and>
      registry s' [] \<and> listloaded s' = listloaded (init_session []) \<and> trace s' = es"
    if f: "open_linput h ?p = None \<or>
      (\<exists>li. open_linput h ?p = Some li \<and>
        (build_loaders_list h li = None \<or>
          (\<exists>ld. build_loaders_list h li = Some ld \<and>
            (\<not> malloc_succeeds h (sizeof_imports h + (length ?p + 1)) \<or>
             \<not> fst (load_nonbinary_file h ?p li ld (segments (init_session [])))))))"
      and c: "load h ?p (init_session []) = Some (- 1, s0)" and t: "trace s0 = es"
    for h es s0
  proof -
    from load_failure_atomic [OF r n f]
    obtain s' where l: "load h ?p (init_session []) = Some (- 1, s')"
      and p: "registry s' []" "listloaded s' = listloaded (init_session [])"
      by auto
    from c t l p show ?thesis by auto
  qed
  have a: "load
       \<lparr>open_linput = (\<lambda>f. None), build_loaders_list = (\<lambda>l. Some 5),
        malloc_succeeds = (\<lambda>n. True), sizeof_imports = 4, QMAXPATH = 260,
             sprintf_s_overflow = (\<lambda>b t. []),
        load_nonbinary_file = (\<lambda>f l d sg. (True, sg))\<rparr>
       ?p (init_session []) = Some (- 1, init_session [])"
    using r n by (rule load_open_fails) simp
  have b: "load
       \<lparr>open_linput = (\<lambda>f. Some 3), build_loaders_list = (\<lambda>l. None),
        malloc_succeeds = (\<lambda>n. True), sizeof_imports = 4, QMAXPATH = 260,
             sprintf_s_overflow = (\<lambda>b t. []),
        load_nonbinary_file = (\<lambda>f l d sg. (True, sg))\<rparr>
       ?p (init_session []) =
      Some (- 1, (init_session [])\<lparr>trace := trace (init_session []) @ [Acquire (Linput 3), Release (Linput 3)]\<rparr>)"
    using r n by (rule load_loaders_fail) simp_all
  have c: "load
       \<lparr>open_linput = (\<lambda>f. Some 3), build_loaders_list = (\<lambda>l. Some 5),
        malloc_succeeds = (\<lambda>n. False), sizeof_imports = 4, QMAXPATH = 260,
             sprintf_s_overflow = (\<lambda>b t. []),
        load_nonbinary_file = (\<lambda>f l d sg. (True, sg))\<rparr>
       ?p (init_session []) =
      Some (- 1, (init_session [])\<lparr>trace := trace (init_session []) @
        [Acquire (Linput 3), Acquire (Loaders 5), Release (Loaders 5), Release (Linput 3)]\<rparr>)"
    using r n by (rule load_malloc_fails) simp_all
  have d: "load
       \<lparr>open_linput = (\<lambda>f. Some 3), build_loaders_list = (\<lambda>l. Some 5),
        malloc_succeeds = (\<lambda>n. True), sizeof_imports = 4, QMAXPATH = 260,
             sprintf_s_overflow = (\<lambda>b t. []),
        load_nonbinary_file = (\<lambda>f l d sg. (False, sg))\<rparr>
       ?p (init_session []) =
      Some (- 1, (init_session [])\<lparr>brk := Suc (brk (init_session [])), segments := [],
        trace := trace (init_session []) @
          [Acquire (Linput 3), Acquire (Loaders 5), Acquire (Node (brk (init_session []))),
           Release (Node (brk (init_session []))), Release (Loaders 5), Release (Linput 3)]\<rparr>)"
    using r n by (rule load_import_fails) (simp_all add: init_session_def)
  show ?thesis
  proof (intro conjI)
    show "\<exists>s'. load
       \<lparr>open_linput = (\<lambda>f. None), build_loaders_list = (\<lambda>l. Some 5),
        malloc_succeeds = (\<lambda>n. True), sizeof_imports = 4, QMAXPATH = 260,
             sprintf_s_overflow = (\<lambda>b t. []),
        load_nonbinary_file = (\<lambda>f l d sg. (True, sg))\<rparr>
       ''C:/lib/a.dll'' (init_session []) = Some (- 1, s') \<and>
     registry s' [] \<and> listloaded s' = listloaded (init_session []) \<and>
     trace s' = []"
      by (rule 1 [OF _ a]) (simp_all add: init_session_def)
    show "\<exists>s'. load
       \<lparr>open_linput = (\<lambda>f. Some 3), build_loaders_list = (\<lambda>l. None),
        malloc_succeeds = (\<lambda>n. True), sizeof_imports = 4, QMAXPATH = 260,
             sprintf_s_overflow = (\<lambda>b t. []),
        load_nonbinary_file = (\<lambda>f l d sg. (True, sg))\<rparr>
       ''C:/lib/a.dll'' (init_session []) = Some (- 1, s') \<and>
     registry s' [] \<and> listloaded s' = listloaded (init_session []) \<and>
     trace s' = [Acquire (Linput 3), Release (Linput 3)]"
      by (rule 1 [OF _ b]) (simp_all add: init_session_def)
    show "\<exists>s'. load
       \<lparr>open_linput = (\<lambda>f. Some 3), build_loaders_list = (\<lambda>l. Some 5),
        malloc_succeeds = (\<lambda>n. False), sizeof_imports = 4, QMAXPATH = 260,
             sprintf_s_overflow = (\<lambda>b t. []),
        load_nonbinary_file = (\<lambda>f l d sg. (True, sg))\<rparr>
       ''C:/lib/a.dll'' (init_session []) = Some (- 1, s') \<and>
     registry s' [] \<and> listloaded s' = listloaded (init_session []) \<and>
     trace s' = [Acquire (Linput 3), Acquire (Loaders 5), Release (Loaders 5), Release (Linput 3)]"
      by (rule 1 [OF _ c]) (simp_all add: init_session_def)
    show "\<exists>s'. load
       \<lparr>open_linput = (\<lambda>f. Some 3), build_loaders_list = (\<lambda>l. Some 5),
        malloc_succeeds = (\<lambda>n. True), sizeof_imports = 4, QMAXPATH = 260,
             sprintf_s_overflow = (\<lambda>b t. []),
        load_nonbinary_file = (\<lambda>f l d sg. (False, sg))\<rparr>
       ''C:/lib/a.dll'' (init_session []) = Some (- 1, s') \<and>
     registry s' [] \<and> listloaded s' = listloaded (init_session []) \<and>
     trace s' = [Acquire (Linput 3), Acquire (Loaders 5), Acquire (Node 0),
                 Release (Node 0), Release (Loaders 5), Release (Linput 3)]"
      by (rule 1 [OF _ d]) (simp_all add: init_session_def)
  qed
qed

text \<open>
  C5. Already loaded: when the path is in the registry, \<open>load\<close> returns -2 and
  the session is the one it was given: no resource event, no change to a segment or to the
  registry. In particular a successful \<open>load\<close> followed by a second \<open>load\<close> of the
  same path, whatever the host would answer, returns -2 and leaves the registry with its
  one new node.
\<close>

theorem load_already_loaded:
  assumes "registry s ns"
  shows "(fn \<in> snd ` set ns \<longrightarrow> load h fn s = Some (- 2, s)) \<and>
    (\<forall>s1. load h fn s = Some (0, s1) \<longrightarrow>
       load h' fn s1 = Some (- 2, s1) \<and> registry s1 (ns @ [(brk s, fn)]))"
proof (intro conjI impI allI)
  assume "fn \<in> snd ` set ns"
  with assms show "load h fn s = Some (- 2, s)" by (rule load_already)
next
  fix s1
  assume l: "load h fn s = Some (0, s1)"
  from load_ok_registry [OF assms l] have r: "registry s1 (ns @ [(brk s, fn)])" by simp
  then show "registry s1 (ns @ [(brk s, fn)])" .
  from r show "load h' fn s1 = Some (- 2, s1)" by (rule load_already) simp
qed

theorem load_already_loaded_witness:
  "\<exists>s1. load \<lparr>open_linput = (\<lambda>f. Some 3), build_loaders_list = (\<lambda>l. Some 5),
             malloc_succeeds = (\<lambda>n. True), sizeof_imports = 4, QMAXPATH = 260,
             sprintf_s_overflow = (\<lambda>b t. []),
             load_nonbinary_file = (\<lambda>f l d sg. (True, sg))\<rparr>
          (''C:'' @ [backslash] @ ''a.dll'') (init_session []) = Some (0, s1) \<and>
        load \<lparr>open_linput = (\<lambda>f. Some 4), build_loaders_list = (\<lambda>l. Some 6),
             malloc_succeeds = (\<lambda>n. True), sizeof_imports = 4, QMAXPATH = 260,
             sprintf_s_overflow = (\<lambda>b t. []),
             load_nonbinary_file = (\<lambda>f l d sg. (True, sg))\<rparr>
          (''C:'' @ [backslash] @ ''a.dll'') s1 = Some (- 2, s1) \<and>
        load \<lparr>open_linput = (\<lambda>f. None), build_loaders_list = (\<lambda>l. None),
             malloc_succeeds = (\<lambda>n. False), sizeof_imports = 4, QMAXPATH = 260,
             sprintf_s_overflow = (\<lambda>b t. []),
             load_nonbinary_file = (\<lambda>f l d sg. (False, []))\<rparr>
          (''C:'' @ [backslash] @ ''a.dll'') s1 = Some (- 2, s1) \<and>
        registry s1 [(0, ''C:'' @ [backslash] @ ''a.dll'')]"
proof -
  let ?h = "\<lparr>open_linput = (\<lambda>f. Some 3), build_loaders_list = (\<lambda>l. Some 5),
             malloc_succeeds = (\<lambda>n. True), sizeof_imports = 4, QMAXPATH = 260,
             sprintf_s_overflow = (\<lambda>b t. []),
             load_nonbinary_file = (\<lambda>f l d sg. (True, sg))\<rparr>"
  let ?h' = "\<lparr>open_linput = (\<lambda>f. Some 4), build_loaders_list = (\<lambda>l. Some 6),
             malloc_succeeds = (\<lambda>n. True), sizeof_imports = 4, QMAXPATH = 260,
             sprintf_s_overflow = (\<lambda>b t. []),
             load_nonbinary_file = (\<lambda>f l d sg. (True, sg))\<rparr>"
  let ?p = "''C:'' @ [backslash] @ ''a.dll''"
  have r: "registry (init_session []) []" by (simp add: registry_def init_session_def)
  have "\<exists>s1. load ?h ?p (init_session []) = Some (0, s1)"
    using load_succeeds [OF r, of ?p ?h 3 5 "[]"] by (auto simp: init_session_def)
  then obtain s1 where l: "load ?h ?p (init_session []) = Some (0, s1)" ..
  from load_already_loaded [OF r, of ?p ?h ?h'] l
  have 2: "load ?h' ?p s1 = Some (- 2, s1)"
    and r1: "registry s1 ([] @ [(brk (init_session []), ?p)])"
    by blast+
  from load_already_loaded [OF r1, of ?p
      "\<lparr>open_linput = (\<lambda>f. None), build_loaders_list = (\<lambda>l. None),
             malloc_succeeds = (\<lambda>n. False), sizeof_imports = 4, QMAXPATH = 260,
             sprintf_s_overflow = (\<lambda>b t. []),
             load_nonbinary_file = (\<lambda>f l d sg. (False, []))\<rparr>"]
  have 3: "load \<lparr>open_linput = (\<lambda>f. None), build_loaders_list = (\<lambda>l. None),
             malloc_succeeds = (\<lambda>n. False), sizeof_imports = 4, QMAXPATH = 260,
             sprintf_s_overflow = (\<lambda>b t. []),
             load_nonbinary_file = (\<lambda>f l d sg. (False, []))\<rparr> ?p s1 = Some (- 2, s1)"
    by simp
  from l 2 3 r1 show ?thesis by (auto simp: init_session_def)
qed

text \<open>
  C6. Membership: \<open>isloaded\<close> returns 1 exactly when the path equals a stored file
  name, character for character and over the whole string, and 0 otherwise; after a
  successful \<open>load\<close> of a path, \<open>isloaded\<close> returns 1 for it.
\<close>

theorem isloaded_exact:
  assumes "registry s ns"
  shows "isloaded fn s = Some (if fn \<in> snd ` set ns then 1 else 0) \<and>
    (\<forall>s'. load h fn s = Some (0, s') \<longrightarrow> isloaded fn s' = Some 1)"
proof (intro conjI allI impI)
  show "isloaded fn s = Some (if fn \<in> snd ` set ns then 1 else 0)"
    using assms by (rule registry_isloaded)
next
  fix s'
  assume "load h fn s = Some (0, s')"
  with assms have "registry s' (ns @ [(brk s, fn)])" by (simp add: load_ok_registry)
  from registry_isloaded [OF this, of fn] show "isloaded fn s' = Some 1" by simp
qed

text \<open>
  With \<open>C:/lib/a.dll\<close> stored, neither the case variant \<open>C:/lib/A.DLL\<close>, nor the
  substring \<open>a.dll\<close>, nor the prefix \<open>C:/lib/a\<close> is reported as loaded.
\<close>

theorem isloaded_exact_witness:
  "isloaded ''C:/lib/a.dll''
     \<lparr>heap = (\<lambda>a. None)(0 \<mapsto> \<lparr>nextp = Null, filename = ''C:/lib/a.dll''\<rparr>), brk = 1,
      loadedbase = \<lparr>nextp = Addr 0, filename = []\<rparr>, loadedend = Addr 0,
      segments = [], trace = []\<rparr> = Some 1 \<and>
   isloaded ''C:/lib/A.DLL''
     \<lparr>heap = (\<lambda>a. None)(0 \<mapsto> \<lparr>nextp = Null, filename = ''C:/lib/a.dll''\<rparr>), brk = 1,
      loadedbase = \<lparr>nextp = Addr 0, filename = []\<rparr>, loadedend = Addr 0,
      segments = [], trace = []\<rparr> = Some 0 \<and>
   isloaded ''a.dll''
     \<lparr>heap = (\<lambda>a. None)(0 \<mapsto> \<lparr>nextp = Null, filename = ''C:/lib/a.dll''\<rparr>), brk = 1,
      loadedbase = \<lparr>nextp = Addr 0, filename = []\<rparr>, loadedend = Addr 0,
      segments = [], trace = []\<rparr> = Some 0 \<and>
   isloaded ''C:/lib/a''
     \<lparr>heap = (\<lambda>a. None)(0 \<mapsto> \<lparr>nextp = Null, filename = ''C:/lib/a.dll''\<rparr>), brk = 1,
      loadedbase = \<lparr>nextp = Addr 0, filename = []\<rparr>, loadedend = Addr 0,
      segments = [], trace = []\<rparr> = Some 0 \<and>
   (\<exists>s'. load \<lparr>open_linput = (\<lambda>f. Some 3), build_loaders_list = (\<lambda>l. Some 5),
             malloc_succeeds = (\<lambda>n. True), sizeof_imports = 4, QMAXPATH = 260,
             sprintf_s_overflow = (\<lambda>b t. []),
             load_nonbinary_file = (\<lambda>f l d sg. (True, sg))\<rparr> ''C:/lib/b.dll''
     \<lparr>heap = (\<lambda>a. None)(0 \<mapsto> \<lparr>nextp = Null, filename = ''C:/lib/a.dll''\<rparr>), brk = 1,
      loadedbase = \<lparr>nextp = Addr 0, filename = []\<rparr>, loadedend = Addr 0,
      segments = [], trace = []\<rparr> = Some (0, s') \<and>
     isloaded ''C:/lib/b.dll'' s' = Some 1 \<and> isloaded ''C:/lib/a.dll'' s' = Some 1)"
proof -
  let ?s = "\<lparr>heap = (\<lambda>a. None)(0 \<mapsto> \<lparr>nextp = Null, filename = ''C:/lib/a.dll''\<rparr>), brk = 1,
      loadedbase = \<lparr>nextp = Addr 0, filename = []\<rparr>, loadedend = Addr 0,
      segments = [], trace = []\<rparr>"
  have r: "registry ?s [(0, ''C:/lib/a.dll'')]" by (simp add: registry_def)
  let ?h = "\<lparr>open_linput = (\<lambda>f. Some (3::nat)), build_loaders_list = (\<lambda>l. Some (5::nat)),
             malloc_succeeds = (\<lambda>n. True), sizeof_imports = 4, QMAXPATH = 260,
             sprintf_s_overflow = (\<lambda>b t. []),
             load_nonbinary_file = (\<lambda>f l d sg. (True, sg))\<rparr>"
  from load_succeeds [OF r, of "''C:/lib/b.dll''" ?h 3 5 "[]"]
  obtain s' where l: "load ?h ''C:/lib/b.dll'' ?s = Some (0, s')"
    and r': "registry s' [(0, ''C:/lib/a.dll''), (1, ''C:/lib/b.dll'')]"
    by auto
  from isloaded_exact [OF r, of "''C:/lib/b.dll''" ?h] l
  have b: "isloaded ''C:/lib/b.dll'' s' = Some 1" by blast
  from isloaded_exact [OF r', of "''C:/lib/a.dll''"]
  have a: "isloaded ''C:/lib/a.dll'' s' = Some 1" by simp
  have "isloaded ''C:/lib/a.dll'' ?s = Some 1" "isloaded ''C:/lib/A.DLL'' ?s = Some 0"
    "isloaded ''a.dll'' ?s = Some 0" "isloaded ''C:/lib/a'' ?s = Some 0"
    using isloaded_exact [OF r, of "''C:/lib/a.dll''"] isloaded_exact [OF r, of "''C:/lib/A.DLL''"]
      isloaded_exact [OF r, of "''a.dll''"] isloaded_exact [OF r, of "''C:/lib/a''"]
    by simp_all
  with l a b show ?thesis by blast
qed

text \<open>
  C7. Order: on a registry without duplicates, every call of \<open>load\<close> leaves the
  entries it found in place and in order (nothing is removed), keeps the file names
  pairwise distinct, and on success hangs the one new node behind the last. So three
  successful loads of \<open>p1\<close>, \<open>p2\<close>, \<open>p3\<close> leave the earlier entries followed by
  \<open>p1\<close>, \<open>p2\<close>, \<open>p3\<close> in this order, without duplicates, and \<open>listloaded\<close>
  prints them in this order after its header.
\<close>

theorem registry_order:
  assumes "registry s ns" and "distinct (map snd ns)"
  shows "(\<forall>r s'. load h fn s = Some (r, s') \<longrightarrow>
      (\<exists>ms. registry s' ms \<and> prefix ns ms \<and> distinct (map snd ms) \<and>
         (r = 0 \<longrightarrow> ms = ns @ [(brk s, fn)]))) \<and>
    (\<forall>s1 s2 s3.
      load h1 p1 s = Some (0, s1) \<and> load h2 p2 s1 = Some (0, s2) \<and>
      load h3 p3 s2 = Some (0, s3) \<longrightarrow>
      registry s3 (ns @ [(brk s, p1), (brk s1, p2), (brk s2, p3)]) \<and>
      distinct (map snd ns @ [p1, p2, p3]) \<and>
      listloaded s3 =
        Some ((''--------------------------\<newline>'' @ ''Currently loaded files:\<newline>'' @
               ''--------------------------\<newline>'') #
              map (\<lambda>p. ''>>>> '' @ [CHR 0x27] @ p @ [CHR 0x27] @ ''\<newline>'')
                (map snd ns @ [p1, p2, p3])))"
proof (intro conjI allI impI)
  fix r s'
  assume l: "load h fn s = Some (r, s')"
  from assms(1) show "\<exists>ms. registry s' ms \<and> prefix ns ms \<and> distinct (map snd ms) \<and>
         (r = 0 \<longrightarrow> ms = ns @ [(brk s, fn)])"
  proof (cases rule: load_cases [where fn = fn and h = h])
    case loaded
    with l assms show ?thesis by auto
  next
    case (failed s'' es)
    with l assms(2) show ?thesis by auto
  next
    case (ok s'' li ld sg)
    with l assms(2) show ?thesis by auto
  qed
next
  fix s1 s2 s3
  assume a: "load h1 p1 s = Some (0, s1) \<and> load h2 p2 s1 = Some (0, s2) \<and>
      load h3 p3 s2 = Some (0, s3)"
  then have l1: "load h1 p1 s = Some (0, s1)" and l2: "load h2 p2 s1 = Some (0, s2)"
    and l3: "load h3 p3 s2 = Some (0, s3)" by simp_all
  from load_ok_registry [OF assms(1) l1]
  have r1: "registry s1 (ns @ [(brk s, p1)])" and n1: "p1 \<notin> snd ` set ns" by simp_all
  from load_ok_registry [OF r1 l2]
  have r2: "registry s2 (ns @ [(brk s, p1), (brk s1, p2)])"
    and n2: "p2 \<notin> snd ` set (ns @ [(brk s, p1)])" by simp_all
  from load_ok_registry [OF r2 l3]
  have r3: "registry s3 (ns @ [(brk s, p1), (brk s1, p2), (brk s2, p3)])"
    and n3: "p3 \<notin> snd ` set (ns @ [(brk s, p1), (brk s1, p2)])" by simp_all
  show "registry s3 (ns @ [(brk s, p1), (brk s1, p2), (brk s2, p3)])" by (rule r3)
  show "distinct (map snd ns @ [p1, p2, p3])"
    using assms(2) n1 n2 n3 by auto
  show "listloaded s3 =
        Some ((''--------------------------\<newline>'' @ ''Currently loaded files:\<newline>'' @
               ''--------------------------\<newline>'') #
              map (\<lambda>p. ''>>>> '' @ [CHR 0x27] @ p @ [CHR 0x27] @ ''\<newline>'')
                (map snd ns @ [p1, p2, p3]))"
    using registry_listloaded [OF r3] by simp
qed

theorem registry_order_witness:
  "\<exists>s1 s2 s3.
     load \<lparr>open_linput = (\<lambda>f. Some 3), build_loaders_list = (\<lambda>l. Some 5),
           malloc_succeeds = (\<lambda>n. True), sizeof_imports = 4, QMAXPATH = 260,
             sprintf_s_overflow = (\<lambda>b t. []),
           load_nonbinary_file = (\<lambda>f l d sg. (True, sg))\<rparr> ''p1'' (init_session []) = Some (0, s1) \<and>
     load \<lparr>open_linput = (\<lambda>f. Some 3), build_loaders_list = (\<lambda>l. Some 5),
           malloc_succeeds = (\<lambda>n. True), sizeof_imports = 4, QMAXPATH = 260,
             sprintf_s_overflow = (\<lambda>b t. []),
           load_nonbinary_file = (\<lambda>f l d sg. (True, sg))\<rparr> ''p2'' s1 = Some (0, s2) \<and>
     load \<lparr>open_linput = (\<lambda>f. Some 3), build_loaders_list = (\<lambda>l. Some 5),
           malloc_succeeds = (\<lambda>n. True), sizeof_imports = 4, QMAXPATH = 260,
             sprintf_s_overflow = (\<lambda>b t. []),
           load_nonbinary_file = (\<lambda>f l d sg. (True, sg))\<rparr> ''p3'' s2 = Some (0, s3) \<and>
     registry s3 [(0, ''p1''), (1, ''p2''), (2, ''p3'')] \<and>
     listloaded s3 =
       Some [''--------------------------\<newline>Currently loaded files:\<newline>--------------------------\<newline>'',
             ''>>>> '' @ [CHR 0x27] @ ''p1'' @ [CHR 0x27] @ ''\<newline>'',
             ''>>>> '' @ [CHR 0x27] @ ''p2'' @ [CHR 0x27] @ ''\<newline>'',
             ''>>>> '' @ [CHR 0x27] @ ''p3'' @ [CHR 0x27] @ ''\<newline>'']"
proof -
  let ?h = "\<lparr>open_linput = (\<lambda>f. Some (3::nat)), build_loaders_list = (\<lambda>l. Some (5::nat)),
           malloc_succeeds = (\<lambda>n. True), sizeof_imports = 4, QMAXPATH = 260,
             sprintf_s_overflow = (\<lambda>b t. []),
           load_nonbinary_file = (\<lambda>f l d sg. (True, sg))\<rparr>"
  have r0: "registry (init_session []) []" by (simp add: registry_def init_session_def)
  from load_succeeds [OF r0, of "''p1''" ?h 3 5 "[]"]
  obtain s1 where l1: "load ?h ''p1'' (init_session []) = Some (0, s1)"
    and r1: "registry s1 [(0, ''p1'')]" and b1: "brk s1 = 1" and g1: "segments s1 = []"
    by (auto simp: init_session_def)
  from load_succeeds [OF r1, of "''p2''" ?h 3 5 "[]"] g1 b1
  obtain s2 where l2: "load ?h ''p2'' s1 = Some (0, s2)"
    and r2: "registry s2 [(0, ''p1''), (1, ''p2'')]" and b2: "brk s2 = 2" and g2: "segments s2 = []"
    by auto
  from load_succeeds [OF r2, of "''p3''" ?h 3 5 "[]"] g2 b2
  obtain s3 where l3: "load ?h ''p3'' s2 = Some (0, s3)"
    by auto
  have d: "distinct (map snd ([] :: (addr \<times> string) list))" by simp
  from registry_order [OF r0 d, of ?h "''p1''" ?h "''p1''" ?h "''p2''" ?h "''p3''"] l1 l2 l3 b1 b2
  have "registry s3 [(0, ''p1''), (1, ''p2''), (2, ''p3'')]"
    and "listloaded s3 =
       Some [''--------------------------\<newline>Currently loaded files:\<newline>--------------------------\<newline>'',
             ''>>>> '' @ [CHR 0x27] @ ''p1'' @ [CHR 0x27] @ ''\<newline>'',
             ''>>>> '' @ [CHR 0x27] @ ''p2'' @ [CHR 0x27] @ ''\<newline>'',
             ''>>>> '' @ [CHR 0x27] @ ''p3'' @ [CHR 0x27] @ ''\<newline>'']"
    by (simp_all add: init_session_def)
  with l1 l2 l3 show ?thesis by blast
qed

text \<open>
  C8. Round trip of the provenance comment: for every path without a newline, the comment
  \<open>load\<close> writes for it, read back by \<open>run\<close> (prefix of six bytes skipped, last byte
  overwritten by the terminator), gives the path again. The format and the parser agree
  (\<open>run_cmt_name_text\<close>), and the code keeps the claim for every path of at most
  \<open>QMAXPATH - 8\<close> bytes (\<open>run_cmt_name_dep_cmt\<close>). But \<open>load\<close> formats the comment
  into \<open>segn\<close>, which was sized for a segment name: a path of \<open>QMAXPATH - 7\<close> bytes or
  more, which \<open>run\<close> can pass from \<open>buf2\<close> or the file dialog, leaves no room, and the
  segment does not get the comment (\<open>dep_cmt_overflow\<close>). With \<open>QMAXPATH = 260\<close> and a
  path of 253 bytes: the segment is renamed, its comment is what the failed call left
  (nothing, or the text cut to the array), and reading it back does not give the path.
\<close>

theorem dep_cmt_long_path:
  "length (''C:'' @ [backslash] @ replicate 250 CHR ''a'') = 253 \<and>
   load_segm
       \<lparr>open_linput = (\<lambda>f. Some 3), build_loaders_list = (\<lambda>l. Some 5),
        malloc_succeeds = (\<lambda>n. True), sizeof_imports = 4, QMAXPATH = 260,
        sprintf_s_overflow = (\<lambda>b t. []),
        load_nonbinary_file = (\<lambda>f l d sg. (True, sg))\<rparr>
       (''C:'' @ [backslash] @ replicate 250 CHR ''a'')
       (Some \<lparr>get_segm_name = Some ''.text'', get_segment_cmt = None\<rparr>) =
     Some \<lparr>get_segm_name = Some (replicate 250 CHR ''a''), get_segment_cmt = Some []\<rparr> \<and>
   run_cmt_name [] = None \<and>
   run_cmt_name (dep_cmt
       \<lparr>open_linput = (\<lambda>f. Some 3), build_loaders_list = (\<lambda>l. Some 5),
        malloc_succeeds = (\<lambda>n. True), sizeof_imports = 4, QMAXPATH = 260,
        sprintf_s_overflow = (\<lambda>b t. take 259 t),
        load_nonbinary_file = (\<lambda>f l d sg. (True, sg))\<rparr>
       ''.text'' (''C:'' @ [backslash] @ replicate 250 CHR ''a''))
     \<noteq> Some (''C:'' @ [backslash] @ replicate 250 CHR ''a'')"
proof -
  let ?fn = "''C:'' @ [backslash] @ replicate 250 CHR ''a''"
  have b: "backslash \<notin> set (replicate 250 CHR ''a'')" by (simp add: backslash_def)
  have p: "strrchr ?fn backslash = Some 2"
    using strrchr_last [OF b, of "''C:''"] by simp
  have 1: "length ?fn = 253" by simp
  have 2: "load_segm
       \<lparr>open_linput = (\<lambda>f. Some 3), build_loaders_list = (\<lambda>l. Some 5),
        malloc_succeeds = (\<lambda>n. True), sizeof_imports = 4, QMAXPATH = 260,
        sprintf_s_overflow = (\<lambda>b t. []),
        load_nonbinary_file = (\<lambda>f l d sg. (True, sg))\<rparr>
       ?fn (Some \<lparr>get_segm_name = Some ''.text'', get_segment_cmt = None\<rparr>) =
     Some \<lparr>get_segm_name = Some (replicate 250 CHR ''a''), get_segment_cmt = Some []\<rparr>"
    using p by (simp add: load_segm_def dep_cmt_def)
  have 3: "run_cmt_name [] = None" by (simp add: run_cmt_name_def)
  have 4: "run_cmt_name (dep_cmt
       \<lparr>open_linput = (\<lambda>f. Some 3), build_loaders_list = (\<lambda>l. Some 5),
        malloc_succeeds = (\<lambda>n. True), sizeof_imports = 4, QMAXPATH = 260,
        sprintf_s_overflow = (\<lambda>b t. take 259 t),
        load_nonbinary_file = (\<lambda>f l d sg. (True, sg))\<rparr>
       ''.text'' ?fn) \<noteq> Some ?fn"
    by (rule dep_cmt_overflow) simp_all
  from 1 2 3 4 show ?thesis by blast
qed

text \<open>
  C10. Backslash-only provenance: for a \<open>load\<close> whose host steps all succeed, the
  call returns 0 and registers the path; a segment differs from what
  \<open>load_nonbinary_file\<close> left only when the path contains a backslash, and for a path
  without one the segments are exactly those the host left: none renamed, no comment
  written.
\<close>

theorem load_backslash_only:
  assumes "registry s ns" and "fn \<notin> snd ` set ns"
    and "open_linput h fn = Some li" and "build_loaders_list h li = Some ld"
    and "malloc_succeeds h (sizeof_imports h + (length fn + 1))"
    and "load_nonbinary_file h fn li ld (segments s) = (True, sg)"
  shows "\<exists>s'. load h fn s = Some (0, s') \<and> registry s' (ns @ [(brk s, fn)]) \<and>
    length (segments s') = length sg \<and>
    (\<forall>i<length sg. segments s' ! i \<noteq> sg ! i \<longrightarrow> backslash \<in> set fn) \<and>
    (backslash \<notin> set fn \<longrightarrow> segments s' = sg)"
proof -
  from load_succeeds [OF assms]
  obtain s' where l: "load h fn s = Some (0, s')" and r: "registry s' (ns @ [(brk s, fn)])"
    and g: "segments s' = map (load_segm h fn) sg" by blast
  have "\<forall>i<length sg. segments s' ! i \<noteq> sg ! i \<longrightarrow> backslash \<in> set fn"
    using g load_segm_changes by auto
  moreover have "backslash \<notin> set fn \<longrightarrow> segments s' = sg"
    using g by (simp add: load_segm_no_backslash map_idI)
  ultimately show ?thesis using l r g by auto
qed

theorem load_backslash_only_witness:
  "\<exists>s'. load \<lparr>open_linput = (\<lambda>f. Some 3), build_loaders_list = (\<lambda>l. Some 5),
             malloc_succeeds = (\<lambda>n. True), sizeof_imports = 4, QMAXPATH = 260,
             sprintf_s_overflow = (\<lambda>b t. []),
             load_nonbinary_file = (\<lambda>f l d sg.
               (True, sg @ [Some \<lparr>get_segm_name = Some ''.text'', get_segment_cmt = None\<rparr>]))\<rparr>
          ''a.dll'' (init_session []) = Some (0, s') \<and>
        registry s' [(0, ''a.dll'')] \<and>
        segments s' = [Some \<lparr>get_segm_name = Some ''.text'', get_segment_cmt = None\<rparr>]"
proof -
  let ?h = "\<lparr>open_linput = (\<lambda>f. Some (3::nat)), build_loaders_list = (\<lambda>l. Some (5::nat)),
             malloc_succeeds = (\<lambda>n. True), sizeof_imports = 4, QMAXPATH = 260,
             sprintf_s_overflow = (\<lambda>b t. []),
             load_nonbinary_file = (\<lambda>f l d sg.
               (True, sg @ [Some \<lparr>get_segm_name = Some ''.text'', get_segment_cmt = None\<rparr>]))\<rparr>"
  have r: "registry (init_session []) []" by (simp add: registry_def init_session_def)
  have n: "''a.dll'' \<notin> snd ` set ([] :: (addr \<times> string) list)" by simp
  have b: "backslash \<notin> set ''a.dll''" by (simp add: backslash_def)
  from load_backslash_only [OF r n, of ?h 3 5
      "[Some \<lparr>get_segm_name = Some ''.text'', get_segment_cmt = None\<rparr>]"] b
  show ?thesis by (auto simp: init_session_def)
qed

text \<open>
  For comparison, a path with a backslash: the segment without a comment takes the file's
  base name and the comment; the segment that has a comment and the missing segment stay
  as they are.
\<close>

lemma load_backslash_example:
  "map (load_segm
       \<lparr>open_linput = (\<lambda>f. Some 3), build_loaders_list = (\<lambda>l. Some 5),
        malloc_succeeds = (\<lambda>n. True), sizeof_imports = 4, QMAXPATH = 260,
        sprintf_s_overflow = (\<lambda>b t. []),
        load_nonbinary_file = (\<lambda>f l d sg. (True, sg))\<rparr>
       (''C:'' @ [backslash] @ ''a.dll''))
     [Some \<lparr>get_segm_name = Some ''.text'', get_segment_cmt = None\<rparr>,
      Some \<lparr>get_segm_name = Some ''.data'', get_segment_cmt = Some ''\<newline>dep: original\<newline>''\<rparr>,
      None] =
     [Some \<lparr>get_segm_name = Some ''a.dll'',
            get_segment_cmt = Some (''\<newline>dep: C:'' @ [backslash] @ ''a.dll\<newline>'')\<rparr>,
      Some \<lparr>get_segm_name = Some ''.data'', get_segment_cmt = Some ''\<newline>dep: original\<newline>''\<rparr>,
      None]"
  by (simp add: load_segm_def backslash_def dep_cmt_def)

end
